theory Spec2Isabelle
  imports Complex_Main
begin

section \<open>Relativistic Doppler visualisation: the numerical core of main.cpp\<close>

text \<open>
  The program computes with C++ \<open>float\<close>. It is embedded twice.

  The first embedding is over the real numbers, every arithmetic operation exact. It
  carries the structure of the program: the stars, the global state, the generator, the
  updater, the callbacks and the main loop. What is stated in it does not rest on rounding:
  which guard fires, which field an operation writes, and that one function applied to the
  same arguments gives the same value. What would be a NaN or an infinity in the program
  (normalising the zero vector, dividing by zero, the square root of a negative number) is
  a value of its own there: \<open>None\<close>, or the error \<open>NonFinite\<close>, so that no result rests on
  what HOL's total division and square root return.

  The second embedding is binary32 arithmetic itself, for the two pure functions
  \<open>wavelengthToRGB\<close> and \<open>calculateRelativisticDopplerShift\<close>: every operation rounds to
  the nearest binary32 number, ties to even, with gradual underflow, overflow to infinity,
  and NaN. The range of these two functions and their values at given inputs are stated
  in it.
\<close>

subsection \<open>Constants\<close>

definition NUM_STARS :: nat where
  "NUM_STARS = 100000"

definition GALAXY_RADIUS :: real where
  "GALAXY_RADIUS = 15"

definition MAX_VELOCITY :: real where
  "MAX_VELOCITY = 0.5"

definition SPEED_OF_LIGHT :: real where
  "SPEED_OF_LIGHT = 1"

definition FLAT_ROTATION_VELOCITY :: real where
  "FLAT_ROTATION_VELOCITY = 0.5"

definition OBSERVER_POSITION_Z :: real where
  "OBSERVER_POSITION_Z = 20"

subsection \<open>Spectrum mapper: \<open>wavelengthToRGB\<close>\<close>

text \<open>
  The output array \<open>float rgb[3]\<close> is the triple \<open>(rgb[0], rgb[1], rgb[2])\<close>. Each branch of
  the source is a function of its own, named after the comment on that branch, so that the
  formulas of two neighbouring branches can be compared at the point where they meet.
\<close>

type_synonym rgb = "real \<times> real \<times> real"

definition violetToBlue :: "real \<Rightarrow> rgb" where
  "violetToBlue wavelength =
     (0.5 * (wavelength / 0.25), 0, 0.5 + 0.5 * (wavelength / 0.25))"

definition blueToCyan :: "real \<Rightarrow> rgb" where
  "blueToCyan wavelength = (0, (wavelength - 0.25) / 0.15, 1)"

definition cyanToGreen :: "real \<Rightarrow> rgb" where
  "cyanToGreen wavelength = (0, 1, 1 - (wavelength - 0.4) / 0.15)"

definition greenToYellow :: "real \<Rightarrow> rgb" where
  "greenToYellow wavelength = ((wavelength - 0.55) / 0.05, 1, 0)"

definition yellowToRed :: "real \<Rightarrow> rgb" where
  "yellowToRed wavelength = (1, 1 - (wavelength - 0.6) / 0.15, 0)"

definition red :: "real \<Rightarrow> rgb" where
  "red wavelength = (1, 0, 0)"

definition wavelengthToRGB :: "real \<Rightarrow> rgb" where
  "wavelengthToRGB wavelength =
     (if wavelength \<le> 0.25 then violetToBlue wavelength
      else if wavelength \<le> 0.4 then blueToCyan wavelength
      else if wavelength \<le> 0.55 then cyanToGreen wavelength
      else if wavelength \<le> 0.6 then greenToYellow wavelength
      else if wavelength \<le> 0.75 then yellowToRed wavelength
      else red wavelength)"

subsection \<open>Vectors: the operations of \<open>glm::vec3\<close> that the program uses\<close>

datatype vec3 = vec3 (vx: real) (vy: real) (vz: real)

definition vsub :: "vec3 \<Rightarrow> vec3 \<Rightarrow> vec3" where
  "vsub a b = vec3 (vx a - vx b) (vy a - vy b) (vz a - vz b)"

definition vscale :: "real \<Rightarrow> vec3 \<Rightarrow> vec3" where
  "vscale k a = vec3 (k * vx a) (k * vy a) (k * vz a)"

definition dot :: "vec3 \<Rightarrow> vec3 \<Rightarrow> real" where
  "dot a b = vx a * vx b + vy a * vy b + vz a * vz b"

definition vlength :: "vec3 \<Rightarrow> real" where
  "vlength a = sqrt (dot a a)"

text \<open>
  \<open>glm::normalize v\<close> is \<open>v * inversesqrt (dot v v)\<close>. On the zero vector that is
  \<open>0 * infinity\<close>, a NaN in every component: \<open>None\<close> here.
\<close>

definition normalize :: "vec3 \<Rightarrow> vec3 option" where
  "normalize v = (if dot v v = 0 then None else Some (vscale (1 / sqrt (dot v v)) v))"

text \<open>\<open>glm::clamp x minVal maxVal\<close> is \<open>min (max x minVal) maxVal\<close>.\<close>

definition clamp :: "real \<Rightarrow> real \<Rightarrow> real \<Rightarrow> real" where
  "clamp x minVal maxVal = min (max x minVal) maxVal"

subsection \<open>Doppler calculator: \<open>calculateRelativisticDopplerShift\<close>\<close>

text \<open>Line 100: the direction from the star's velocity vector to the observer's point.\<close>

definition lineOfSight :: "vec3 \<Rightarrow> vec3 option" where
  "lineOfSight starVelocity = normalize (vsub (vec3 0 0 OBSERVER_POSITION_Z) starVelocity)"

text \<open>Lines 108 and 109: the two guards on \<open>beta\<close>, one after the other.\<close>

definition clampBeta :: "real \<Rightarrow> real" where
  "clampBeta beta =
     (let beta = (if beta \<ge> 1 then 0.99 else beta)
      in if beta \<le> -1 then -0.99 else beta)"

text \<open>Line 111: the factor as a function of the guarded \<open>beta\<close>.\<close>

definition dopplerFactor :: "real \<Rightarrow> real" where
  "dopplerFactor beta = sqrt ((1 + beta) / (1 - beta))"

definition calculateRelativisticDopplerShift :: "vec3 \<Rightarrow> vec3 \<Rightarrow> real option" where
  "calculateRelativisticDopplerShift starVelocity observerVel =
     (case lineOfSight starVelocity of
        None \<Rightarrow> None
      | Some los \<Rightarrow>
          let relativeVelocity = dot (vsub starVelocity observerVel) los;
              beta = relativeVelocity / SPEED_OF_LIGHT;
              beta = clampBeta beta
          in Some (dopplerFactor beta))"

subsection \<open>Stars and the program state\<close>

record Star =
  position :: vec3
  velocity :: vec3
  color :: vec3
  dopplerShiftedColor :: rgb

text \<open>
  The global variables of the program. The random number generator is not part of the
  state: the numbers it draws are a parameter of \<open>initializeStars\<close>.
\<close>

record state =
  windowWidth :: int
  windowHeight :: int
  showKeplerian :: bool
  showFlatRotation :: bool
  viewAngle :: real
  observerVelocity :: real
  keplerianStars :: "Star list"
  flatRotationStars :: "Star list"

datatype error = NonFinite | ProcessExit

text \<open>
  The four statements that turn a star's velocity into its displayed colour. They occur
  twice in \<open>initializeStars\<close> (lines 145 to 150 and 163 to 168) and twice in
  \<open>updateDopplerShifts\<close> (lines 179 to 183 and 187 to 191), each time with the observer's
  velocity vector \<open>(0, 0, observerVelocity)\<close> and the wavelength 0.5. A factor that is not
  a number ends the computation with \<open>NonFinite\<close>.
\<close>

definition shiftedColor :: "vec3 \<Rightarrow> real \<Rightarrow> error + rgb" where
  "shiftedColor starVelocity observerVel =
     (case calculateRelativisticDopplerShift starVelocity (vec3 0 0 observerVel) of
        None \<Rightarrow> Inl NonFinite
      | Some factor \<Rightarrow>
          let baseWavelength = 0.5;
              shiftedWavelength = baseWavelength * factor;
              shiftedWavelength = clamp shiftedWavelength 0 1
          in Inr (wavelengthToRGB shiftedWavelength))"

subsection \<open>Star field generator: \<open>initializeStars\<close>\<close>

text \<open>
  One pass of the loop body, for the three numbers drawn in it (angle, radius, height):
  the Keplerian star and the flat-rotation star of that index. The quotient under the
  square root has no finite value when \<open>radius + 0.1\<close> is not positive.
\<close>

type_synonym sample = "real \<times> real \<times> real"

definition createStars :: "real \<Rightarrow> sample \<Rightarrow> error + (Star \<times> Star)" where
  "createStars observerVel smp =
     (case smp of (angle, radius, height) \<Rightarrow>
        let pos = vec3 (radius * cos angle) height (radius * sin angle);
            wavelength = 0.5;
            baseColor = wavelengthToRGB wavelength
        in if radius + 0.1 \<le> 0 then Inl NonFinite
           else
             let keplerianSpeed = MAX_VELOCITY * sqrt (GALAXY_RADIUS / (radius + 0.1));
                 tangentX = - sin angle;
                 tangentZ = cos angle;
                 keplerianVel = vec3 (keplerianSpeed * tangentX) 0 (keplerianSpeed * tangentZ);
                 flatVel = vec3 (FLAT_ROTATION_VELOCITY * tangentX) 0
                                (FLAT_ROTATION_VELOCITY * tangentZ);
                 baseVec = (case baseColor of (r, g, b) \<Rightarrow> vec3 r g b)
             in (case shiftedColor keplerianVel observerVel of
                   Inl e \<Rightarrow> Inl e
                 | Inr keplerianShifted \<Rightarrow>
                     (case shiftedColor flatVel observerVel of
                        Inl e \<Rightarrow> Inl e
                      | Inr flatShifted \<Rightarrow>
                          Inr (\<lparr>position = pos, velocity = keplerianVel, color = baseVec,
                                 dopplerShiftedColor = keplerianShifted\<rparr>,
                               \<lparr>position = pos, velocity = flatVel, color = baseVec,
                                 dopplerShiftedColor = flatShifted\<rparr>))))"

text \<open>The loop: one pair of stars for each sample, pushed to the back in order.\<close>

fun generate :: "real \<Rightarrow> sample list \<Rightarrow> error + (Star list \<times> Star list)" where
  "generate observerVel [] = Inr ([], [])"
| "generate observerVel (smp # smps) =
     (case createStars observerVel smp of
        Inl e \<Rightarrow> Inl e
      | Inr (keplerianStar, flatStar) \<Rightarrow>
          (case generate observerVel smps of
             Inl e \<Rightarrow> Inl e
           | Inr (ks, fs) \<Rightarrow> Inr (keplerianStar # ks, flatStar # fs)))"

text \<open>
  \<open>draws i\<close> is the triple drawn in pass \<open>i\<close> of the loop. Both vectors are cleared and
  filled again; the observer's velocity is read from the global variable.
\<close>

definition initializeStars :: "(nat \<Rightarrow> sample) \<Rightarrow> state \<Rightarrow> error + state" where
  "initializeStars draws s =
     (case generate (observerVelocity s) (map draws [0..<NUM_STARS]) of
        Inl e \<Rightarrow> Inl e
      | Inr (ks, fs) \<Rightarrow> Inr (s\<lparr>keplerianStars := ks, flatRotationStars := fs\<rparr>))"

text \<open>
  The ranges of the three distributions (lines 56 to 58). The upper ends are included: a
  draw rounded to \<open>float\<close> can reach them.
\<close>

definition in_distribution :: "sample \<Rightarrow> bool" where
  "in_distribution smp =
     (case smp of (angle, radius, height) \<Rightarrow>
        0 \<le> angle \<and> angle \<le> 2 * pi \<and> 0.1 \<le> radius \<and> radius \<le> GALAXY_RADIUS
        \<and> -0.5 \<le> height \<and> height \<le> 0.5)"

definition valid_draws :: "(nat \<Rightarrow> sample) \<Rightarrow> bool" where
  "valid_draws draws = (\<forall>i < NUM_STARS. in_distribution (draws i))"

subsection \<open>Shift updater: \<open>updateDopplerShifts\<close>\<close>

text \<open>One of the two loops: every star of a population gets its colour again.\<close>

fun refresh :: "real \<Rightarrow> Star list \<Rightarrow> error + Star list" where
  "refresh observerVel [] = Inr []"
| "refresh observerVel (star # stars) =
     (case shiftedColor (velocity star) observerVel of
        Inl e \<Rightarrow> Inl e
      | Inr c \<Rightarrow>
          (case refresh observerVel stars of
             Inl e \<Rightarrow> Inl e
           | Inr stars' \<Rightarrow> Inr (star\<lparr>dopplerShiftedColor := c\<rparr> # stars')))"

definition updateDopplerShifts :: "state \<Rightarrow> error + state" where
  "updateDopplerShifts s =
     (let observerVel = observerVelocity s
      in case refresh observerVel (keplerianStars s) of
           Inl e \<Rightarrow> Inl e
         | Inr ks \<Rightarrow>
             (case refresh observerVel (flatRotationStars s) of
                Inl e \<Rightarrow> Inl e
              | Inr fs \<Rightarrow> Inr (s\<lparr>keplerianStars := ks, flatRotationStars := fs\<rparr>)))"

subsection \<open>The callbacks: \<open>keyboard\<close>, \<open>reshape\<close>, \<open>idle\<close>\<close>

text \<open>
  \<open>display\<close> reads the state and draws; it changes none of the variables above and is left
  out. The escape key ends the process: \<open>ProcessExit\<close>.
\<close>

definition keyboard :: "char \<Rightarrow> int \<Rightarrow> int \<Rightarrow> state \<Rightarrow> error + state" where
  "keyboard key x y s =
     (if key = CHR ''w'' \<or> key = CHR ''W'' then
        let v = observerVelocity s + 0.01;
            v = (if v > 0.9 then 0.9 else v)
        in updateDopplerShifts (s\<lparr>observerVelocity := v\<rparr>)
      else if key = CHR ''s'' \<or> key = CHR ''S'' then
        let v = observerVelocity s - 0.01;
            v = (if v < -0.9 then -0.9 else v)
        in updateDopplerShifts (s\<lparr>observerVelocity := v\<rparr>)
      else if key = CHR ''a'' \<or> key = CHR ''A'' then
        Inr (s\<lparr>viewAngle := viewAngle s - 5\<rparr>)
      else if key = CHR ''d'' \<or> key = CHR ''D'' then
        Inr (s\<lparr>viewAngle := viewAngle s + 5\<rparr>)
      else if key = CHR ''k'' \<or> key = CHR ''K'' then
        Inr (s\<lparr>showKeplerian := \<not> showKeplerian s\<rparr>)
      else if key = CHR ''f'' \<or> key = CHR ''F'' then
        Inr (s\<lparr>showFlatRotation := \<not> showFlatRotation s\<rparr>)
      else if key = CHR ''r'' \<or> key = CHR ''R'' then
        updateDopplerShifts
          (s\<lparr>viewAngle := 0, observerVelocity := 0,
             showKeplerian := True, showFlatRotation := True\<rparr>)
      else if key = CHR 0x1B then Inl ProcessExit
      else Inr s)"

definition reshape :: "int \<Rightarrow> int \<Rightarrow> state \<Rightarrow> state" where
  "reshape w h s = s\<lparr>windowWidth := w, windowHeight := h\<rparr>"

definition idle :: "state \<Rightarrow> state" where
  "idle s =
     (let a = viewAngle s + 0.1;
          a = (if a > 360 then a - 360 else a)
      in s\<lparr>viewAngle := a\<rparr>)"

subsection \<open>The program: start-up, then the events of the main loop\<close>

definition globals :: state where
  "globals = \<lparr>windowWidth = 1200, windowHeight = 600, showKeplerian = True,
              showFlatRotation = True, viewAngle = 0, observerVelocity = 0,
              keplerianStars = [], flatRotationStars = []\<rparr>"

text \<open>The state in which \<open>main\<close> enters the main loop.\<close>

definition main :: "(nat \<Rightarrow> sample) \<Rightarrow> error + state" where
  "main draws = initializeStars draws globals"

datatype event = Keyboard char int int | Reshape int int | Idle

fun handle :: "event \<Rightarrow> state \<Rightarrow> error + state" where
  "handle (Keyboard key x y) s = keyboard key x y s"
| "handle (Reshape w h) s = Inr (reshape w h s)"
| "handle Idle s = Inr (idle s)"

fun run :: "event list \<Rightarrow> state \<Rightarrow> error + state" where
  "run [] s = Inr s"
| "run (e # es) s = (case handle e s of Inl err \<Rightarrow> Inl err | Inr s' \<Rightarrow> run es s')"

text \<open>The whole program on given draws and events.\<close>

definition program :: "(nat \<Rightarrow> sample) \<Rightarrow> event list \<Rightarrow> error + state" where
  "program draws es = (case main draws of Inl err \<Rightarrow> Inl err | Inr s \<Rightarrow> run es s)"

subsection \<open>Predicates used in the statements\<close>

text \<open>
  The displayed colour of every star of a population is the one that its velocity and the
  given observer velocity give; a state is consistent when that holds of both populations
  for the current observer velocity.
\<close>

definition colours_current :: "real \<Rightarrow> Star list \<Rightarrow> bool" where
  "colours_current observerVel stars =
     list_all (\<lambda>star. shiftedColor (velocity star) observerVel = Inr (dopplerShiftedColor star)) stars"

definition consistent :: "state \<Rightarrow> bool" where
  "consistent s =
     (colours_current (observerVelocity s) (keplerianStars s)
      \<and> colours_current (observerVelocity s) (flatRotationStars s))"

text \<open>Two populations with the same positions and the same velocities, index by index.\<close>

definition same_motion :: "Star list \<Rightarrow> Star list \<Rightarrow> bool" where
  "same_motion xs ys = (map position xs = map position ys \<and> map velocity xs = map velocity ys)"

definition stars_kept :: "state \<Rightarrow> state \<Rightarrow> bool" where
  "stars_kept s s' =
     (same_motion (keplerianStars s') (keplerianStars s)
      \<and> same_motion (flatRotationStars s') (flatRotationStars s))"

text \<open>Kinds of events: the escape key, the rotation keys, the velocity-increase keys.\<close>

fun exits :: "event \<Rightarrow> bool" where
  "exits (Keyboard key x y) = (key = CHR 0x1B)"
| "exits (Reshape w h) = False"
| "exits Idle = False"

fun rotates :: "event \<Rightarrow> bool" where
  "rotates (Keyboard key x y) =
     (key = CHR ''a'' \<or> key = CHR ''A'' \<or> key = CHR ''d'' \<or> key = CHR ''D'')"
| "rotates (Reshape w h) = False"
| "rotates Idle = False"

fun increases :: "event \<Rightarrow> bool" where
  "increases (Keyboard key x y) = (key = CHR ''w'' \<or> key = CHR ''W'')"
| "increases (Reshape w h) = False"
| "increases Idle = False"

text \<open>The range \<open>[0, 360)\<close> for the view angle.\<close>

definition wrapped :: "state \<Rightarrow> bool" where
  "wrapped s = (0 \<le> viewAngle s \<and> viewAngle s < 360)"

text \<open>
  Draws for the examples: the first star at angle 0, radius 14.9 and height 0, every
  other star at angle 0, radius \<open>GALAXY_RADIUS\<close> and height 0.25.
\<close>

definition example_draws :: "nat \<Rightarrow> sample" where
  "example_draws i = (if i = 0 then (0, 149 / 10, 0) else (0, 15, 1 / 4))"

subsection \<open>Binary32 arithmetic\<close>

text \<open>
  A finite binary32 number is \<open>m * 2 ^ e\<close> for integers with \<open>\<bar>m\<bar> < 2 ^ 24\<close> and
  \<open>- 149 \<le> e \<le> 104\<close>. \<open>rnd\<close> rounds a real number to the nearest number \<open>m * 2 ^ e\<close> with
  \<open>\<bar>m\<bar> \<le> 2 ^ 24\<close> and \<open>- 149 \<le> e\<close>, ties to the even \<open>m\<close>: the exponent of the result is
  that of the argument, and not below that of the subnormal numbers.
\<close>

definition pow2 :: "int \<Rightarrow> real" where
  "pow2 k = 2 powr real_of_int k"

definition round_even :: "real \<Rightarrow> int" where
  "round_even y =
     (let f = \<lfloor>y\<rfloor>; d = y - of_int f
      in if d < 1 / 2 then f else if 1 / 2 < d then f + 1 else if even f then f else f + 1)"

definition expo :: "real \<Rightarrow> int" where
  "expo x = (if x = 0 then - 126 else max \<lfloor>log 2 \<bar>x\<bar>\<rfloor> (- 126))"

definition ulp :: "real \<Rightarrow> real" where
  "ulp x = pow2 (expo x - 23)"

definition rnd :: "real \<Rightarrow> real" where
  "rnd x = of_int (round_even (x / ulp x)) * ulp x"

text \<open>
  The values of type \<open>float\<close>. \<open>finish\<close> is the result of an operation whose exact value is
  \<open>x\<close>: \<open>x\<close> rounded, or an infinity when the rounded value exceeds the largest finite
  number. Zeros carry no sign: the only zero that the program divides by is the square
  root of a sum of squares, which is \<open>+0\<close>. A decimal literal of the source is the nearest
  binary32 number (\<open>lit\<close>).
\<close>

datatype f32 = Fin real | PInf | NInf | NaN

definition max_float :: real where
  "max_float = 16777215 * pow2 104"

definition finish :: "real \<Rightarrow> f32" where
  "finish x =
     (let r = rnd x
      in if max_float < r then PInf else if r < - max_float then NInf else Fin r)"

definition lit :: "real \<Rightarrow> f32" where
  "lit x = finish x"

text \<open>
  The operations. Each rounds once to binary32: no wider intermediate precision and no
  fused multiply-add. \<open>fsqrt\<close> is the correctly rounded square root. A comparison with a
  NaN is false.
\<close>

fun fneg :: "f32 \<Rightarrow> f32" where
  "fneg (Fin x) = Fin (- x)"
| "fneg PInf = NInf"
| "fneg NInf = PInf"
| "fneg NaN = NaN"

fun fadd :: "f32 \<Rightarrow> f32 \<Rightarrow> f32" where
  "fadd (Fin x) (Fin y) = finish (x + y)"
| "fadd (Fin x) PInf = PInf"
| "fadd (Fin x) NInf = NInf"
| "fadd PInf (Fin y) = PInf"
| "fadd NInf (Fin y) = NInf"
| "fadd PInf PInf = PInf"
| "fadd NInf NInf = NInf"
| "fadd PInf NInf = NaN"
| "fadd NInf PInf = NaN"
| "fadd NaN b = NaN"
| "fadd a NaN = NaN"

definition fsub :: "f32 \<Rightarrow> f32 \<Rightarrow> f32" where
  "fsub a b = fadd a (fneg b)"

fun fmul :: "f32 \<Rightarrow> f32 \<Rightarrow> f32" where
  "fmul (Fin x) (Fin y) = finish (x * y)"
| "fmul (Fin x) PInf = (if x = 0 then NaN else if 0 < x then PInf else NInf)"
| "fmul (Fin x) NInf = (if x = 0 then NaN else if 0 < x then NInf else PInf)"
| "fmul PInf (Fin y) = (if y = 0 then NaN else if 0 < y then PInf else NInf)"
| "fmul NInf (Fin y) = (if y = 0 then NaN else if 0 < y then NInf else PInf)"
| "fmul PInf PInf = PInf"
| "fmul NInf NInf = PInf"
| "fmul PInf NInf = NInf"
| "fmul NInf PInf = NInf"
| "fmul NaN b = NaN"
| "fmul a NaN = NaN"

fun fdiv :: "f32 \<Rightarrow> f32 \<Rightarrow> f32" where
  "fdiv (Fin x) (Fin y) =
     (if y = 0 then (if x = 0 then NaN else if 0 < x then PInf else NInf)
      else finish (x / y))"
| "fdiv (Fin x) PInf = Fin 0"
| "fdiv (Fin x) NInf = Fin 0"
| "fdiv PInf (Fin y) = (if 0 \<le> y then PInf else NInf)"
| "fdiv NInf (Fin y) = (if 0 \<le> y then NInf else PInf)"
| "fdiv PInf PInf = NaN"
| "fdiv NInf NInf = NaN"
| "fdiv PInf NInf = NaN"
| "fdiv NInf PInf = NaN"
| "fdiv NaN b = NaN"
| "fdiv a NaN = NaN"

fun fsqrt :: "f32 \<Rightarrow> f32" where
  "fsqrt (Fin x) = (if x < 0 then NaN else Fin (rnd (sqrt x)))"
| "fsqrt PInf = PInf"
| "fsqrt NInf = NaN"
| "fsqrt NaN = NaN"

fun fle :: "f32 \<Rightarrow> f32 \<Rightarrow> bool" where
  "fle (Fin x) (Fin y) = (x \<le> y)"
| "fle (Fin x) PInf = True"
| "fle (Fin x) NInf = False"
| "fle PInf (Fin y) = False"
| "fle NInf (Fin y) = True"
| "fle PInf PInf = True"
| "fle NInf NInf = True"
| "fle PInf NInf = False"
| "fle NInf PInf = True"
| "fle NaN b = False"
| "fle a NaN = False"

fun flt :: "f32 \<Rightarrow> f32 \<Rightarrow> bool" where
  "flt (Fin x) (Fin y) = (x < y)"
| "flt (Fin x) PInf = True"
| "flt (Fin x) NInf = False"
| "flt PInf (Fin y) = False"
| "flt NInf (Fin y) = True"
| "flt PInf PInf = False"
| "flt NInf NInf = False"
| "flt PInf NInf = False"
| "flt NInf PInf = True"
| "flt NaN b = False"
| "flt a NaN = False"

definition fge :: "f32 \<Rightarrow> f32 \<Rightarrow> bool" where
  "fge a b = fle b a"

definition fgt :: "f32 \<Rightarrow> f32 \<Rightarrow> bool" where
  "fgt a b = flt b a"

subsection \<open>\<open>wavelengthToRGB\<close> in binary32\<close>

text \<open>The branches and the function, lines 65 to 94, operation by operation.\<close>

definition violetToBlue32 :: "f32 \<Rightarrow> f32 \<times> f32 \<times> f32" where
  "violetToBlue32 wavelength =
     (fmul (lit 0.5) (fdiv wavelength (lit 0.25)), lit 0,
      fadd (lit 0.5) (fmul (lit 0.5) (fdiv wavelength (lit 0.25))))"

definition blueToCyan32 :: "f32 \<Rightarrow> f32 \<times> f32 \<times> f32" where
  "blueToCyan32 wavelength = (lit 0, fdiv (fsub wavelength (lit 0.25)) (lit 0.15), lit 1)"

definition cyanToGreen32 :: "f32 \<Rightarrow> f32 \<times> f32 \<times> f32" where
  "cyanToGreen32 wavelength =
     (lit 0, lit 1, fsub (lit 1) (fdiv (fsub wavelength (lit 0.4)) (lit 0.15)))"

definition greenToYellow32 :: "f32 \<Rightarrow> f32 \<times> f32 \<times> f32" where
  "greenToYellow32 wavelength = (fdiv (fsub wavelength (lit 0.55)) (lit 0.05), lit 1, lit 0)"

definition yellowToRed32 :: "f32 \<Rightarrow> f32 \<times> f32 \<times> f32" where
  "yellowToRed32 wavelength =
     (lit 1, fsub (lit 1) (fdiv (fsub wavelength (lit 0.6)) (lit 0.15)), lit 0)"

definition red32 :: "f32 \<Rightarrow> f32 \<times> f32 \<times> f32" where
  "red32 wavelength = (lit 1, lit 0, lit 0)"

definition wavelengthToRGB32 :: "f32 \<Rightarrow> f32 \<times> f32 \<times> f32" where
  "wavelengthToRGB32 wavelength =
     (if fle wavelength (lit 0.25) then violetToBlue32 wavelength
      else if fle wavelength (lit 0.4) then blueToCyan32 wavelength
      else if fle wavelength (lit 0.55) then cyanToGreen32 wavelength
      else if fle wavelength (lit 0.6) then greenToYellow32 wavelength
      else if fle wavelength (lit 0.75) then yellowToRed32 wavelength
      else red32 wavelength)"

text \<open>
  The table of section 4.1 of the specification, written from its rows, each with its own
  range of \<open>w\<close>, and evaluated in binary32.
\<close>

definition spec_table32 :: "f32 \<Rightarrow> f32 \<times> f32 \<times> f32" where
  "spec_table32 w =
     (if fle w (lit 0.25) then
        (fmul (lit 0.5) (fdiv w (lit 0.25)), lit 0, fadd (lit 0.5) (fmul (lit 0.5) (fdiv w (lit 0.25))))
      else if flt (lit 0.25) w \<and> fle w (lit 0.4) then
        (lit 0, fdiv (fsub w (lit 0.25)) (lit 0.15), lit 1)
      else if flt (lit 0.4) w \<and> fle w (lit 0.55) then
        (lit 0, lit 1, fsub (lit 1) (fdiv (fsub w (lit 0.4)) (lit 0.15)))
      else if flt (lit 0.55) w \<and> fle w (lit 0.6) then
        (fdiv (fsub w (lit 0.55)) (lit 0.05), lit 1, lit 0)
      else if flt (lit 0.6) w \<and> fle w (lit 0.75) then
        (lit 1, fsub (lit 1) (fdiv (fsub w (lit 0.6)) (lit 0.15)), lit 0)
      else (lit 1, lit 0, lit 0))"

subsection \<open>\<open>calculateRelativisticDopplerShift\<close> in binary32\<close>

text \<open>
  \<open>glm::dot\<close> on \<open>vec3\<close> multiplies component by component and adds the three products
  from the left; \<open>glm::inversesqrt x\<close> is \<open>1 / sqrt x\<close>; \<open>glm::normalize v\<close> is
  \<open>v * inversesqrt (dot v v)\<close>. Lines 100 to 105 give the raw \<open>beta\<close>, lines 108 and 109
  its two guards, line 111 the factor.
\<close>

datatype vec3f = vec3f (fx: f32) (fy: f32) (fz: f32)

definition vsub32 :: "vec3f \<Rightarrow> vec3f \<Rightarrow> vec3f" where
  "vsub32 a b = vec3f (fsub (fx a) (fx b)) (fsub (fy a) (fy b)) (fsub (fz a) (fz b))"

definition vscale32 :: "vec3f \<Rightarrow> f32 \<Rightarrow> vec3f" where
  "vscale32 a k = vec3f (fmul (fx a) k) (fmul (fy a) k) (fmul (fz a) k)"

definition dot32 :: "vec3f \<Rightarrow> vec3f \<Rightarrow> f32" where
  "dot32 a b = fadd (fadd (fmul (fx a) (fx b)) (fmul (fy a) (fy b))) (fmul (fz a) (fz b))"

definition inversesqrt32 :: "f32 \<Rightarrow> f32" where
  "inversesqrt32 x = fdiv (lit 1) (fsqrt x)"

definition normalize32 :: "vec3f \<Rightarrow> vec3f" where
  "normalize32 v = vscale32 v (inversesqrt32 (dot32 v v))"

definition lineOfSight32 :: "vec3f \<Rightarrow> vec3f" where
  "lineOfSight32 starVelocity =
     normalize32 (vsub32 (vec3f (lit 0) (lit 0) (lit OBSERVER_POSITION_Z)) starVelocity)"

definition rawBeta32 :: "vec3f \<Rightarrow> vec3f \<Rightarrow> f32" where
  "rawBeta32 starVelocity observerVel =
     (let relativeVelocity = dot32 (vsub32 starVelocity observerVel) (lineOfSight32 starVelocity)
      in fdiv relativeVelocity (lit SPEED_OF_LIGHT))"

definition clampBeta32 :: "f32 \<Rightarrow> f32" where
  "clampBeta32 beta =
     (let beta = (if fge beta (lit 1) then lit 0.99 else beta)
      in if fle beta (fneg (lit 1)) then fneg (lit 0.99) else beta)"

definition dopplerFactor32 :: "f32 \<Rightarrow> f32" where
  "dopplerFactor32 beta = fsqrt (fdiv (fadd (lit 1) beta) (fsub (lit 1) beta))"

definition calculateRelativisticDopplerShift32 :: "vec3f \<Rightarrow> vec3f \<Rightarrow> f32" where
  "calculateRelativisticDopplerShift32 starVelocity observerVel =
     (let beta = rawBeta32 starVelocity observerVel;
          beta = clampBeta32 beta
      in dopplerFactor32 beta)"

section \<open>Properties of the Doppler calculator\<close>

lemma dot_self_eq_0_iff: "dot v v = 0 \<longleftrightarrow> v = vec3 0 0 0"
  by (cases v) (simp add: dot_def add_nonneg_eq_0_iff)

lemma dot_self_nonneg: "0 \<le> dot v v"
  by (simp add: dot_def)

lemma vsub_eq_0_iff: "vsub a b = vec3 0 0 0 \<longleftrightarrow> a = b"
  by (cases a; cases b) (simp add: vsub_def)

lemma lineOfSight_None_iff:
  "lineOfSight v = None \<longleftrightarrow> v = vec3 0 0 OBSERVER_POSITION_Z"
  by (auto simp add: lineOfSight_def normalize_def dot_self_eq_0_iff vsub_eq_0_iff)

lemma vlength_vscale: "vlength (vscale k v) = \<bar>k\<bar> * vlength v"
proof -
  have "dot (vscale k v) (vscale k v) = k\<^sup>2 * dot v v"
    by (simp add: dot_def vscale_def power2_eq_square algebra_simps)
  then show ?thesis
    by (simp add: vlength_def real_sqrt_mult)
qed

lemma clampBeta_cases:
  "clampBeta b = (if b \<ge> 1 then 0.99 else if b \<le> -1 then -0.99 else b)"
  by (simp add: clampBeta_def Let_def)

lemma clampBeta_bounds: "-1 < clampBeta b \<and> clampBeta b < 1"
  by (simp add: clampBeta_cases)

lemma dopplerFactor_pos: "-1 < b \<Longrightarrow> b < 1 \<Longrightarrow> 0 < dopplerFactor b"
  by (simp add: dopplerFactor_def)

lemma dopplerFactor_zero: "dopplerFactor 0 = 1"
  by (simp add: dopplerFactor_def)

lemma dopplerFactor_strict_mono:
  assumes "-1 < a" and "a < b" and "b < 1"
  shows "dopplerFactor a < dopplerFactor b"
proof -
  have "(1 + a) * (1 - b) < (1 + b) * (1 - a)"
    using assms by (simp add: algebra_simps)
  then have "(1 + a) / (1 - a) < (1 + b) / (1 - b)"
    using assms by (simp add: divide_simps mult.commute)
  then show ?thesis
    by (simp add: dopplerFactor_def)
qed

lemma calc_None_iff:
  "calculateRelativisticDopplerShift v ob = None \<longleftrightarrow> v = vec3 0 0 OBSERVER_POSITION_Z"
  using lineOfSight_None_iff [of v]
  by (auto simp add: calculateRelativisticDopplerShift_def Let_def split: option.splits)

text \<open>
  Claim C7. As a function of the guarded \<open>beta\<close>, the Doppler factor
  \<open>sqrt ((1 + beta) / (1 - beta))\<close> is strictly positive on \<open>(-1, 1)\<close>, equals 1 at
  \<open>beta = 0\<close>, and increases with \<open>beta\<close>; the guards of the calculator always leave
  \<open>beta\<close> in that range.
\<close>

theorem dopplerFactor_positive_unit_increasing:
  "(\<forall>beta. -1 < beta \<and> beta < 1 \<longrightarrow> 0 < dopplerFactor beta)
   \<and> dopplerFactor 0 = 1
   \<and> (\<forall>a b. -1 < a \<and> a < b \<and> b < 1 \<longrightarrow> dopplerFactor a < dopplerFactor b)
   \<and> (\<forall>beta. -1 < clampBeta beta \<and> clampBeta beta < 1)"
  using dopplerFactor_pos dopplerFactor_zero dopplerFactor_strict_mono clampBeta_bounds
  by blast

theorem dopplerFactor_positive_unit_increasing_witness:
  "0 < dopplerFactor (3/5) \<and> dopplerFactor 0 < dopplerFactor (3/5) \<and> dopplerFactor (3/5) = 2"
proof -
  have pos: "0 < dopplerFactor (3/5)"
    using dopplerFactor_positive_unit_increasing by simp
  have "-1 < (0::real) \<and> (0::real) < 3/5 \<and> (3/5::real) < 1" by simp
  then have inc: "dopplerFactor 0 < dopplerFactor (3/5)"
    using dopplerFactor_positive_unit_increasing by blast
  have "dopplerFactor (3/5) = sqrt (2\<^sup>2)"
    by (simp add: dopplerFactor_def)
  then have "dopplerFactor (3/5) = 2"
    by simp
  with pos inc show ?thesis by simp
qed

section \<open>The star populations and the main loop\<close>

lemma shiftedColor_Inl_iff:
  "shiftedColor v ov = Inl e \<longleftrightarrow> e = NonFinite \<and> v = vec3 0 0 OBSERVER_POSITION_Z"
  using calc_None_iff [of v "vec3 0 0 ov"]
  by (auto simp add: shiftedColor_def Let_def split: option.splits)

lemma shiftedColor_Inr_ex:
  "v \<noteq> vec3 0 0 OBSERVER_POSITION_Z \<Longrightarrow> \<exists>c. shiftedColor v ov = Inr c"
  using shiftedColor_Inl_iff [of v ov] by (cases "shiftedColor v ov") auto

lemma shiftedColor_Inr_D:
  assumes "shiftedColor v ov = Inr c"
  shows "\<exists>factor. calculateRelativisticDopplerShift v (vec3 0 0 ov) = Some factor
           \<and> c = wavelengthToRGB (clamp (0.5 * factor) 0 1)"
  using assms by (auto simp add: shiftedColor_def Let_def split: option.splits)

lemma shiftedColor_Inr_other:
  assumes "shiftedColor v ov = Inr c"
  shows "\<exists>c'. shiftedColor v ov' = Inr c'"
proof -
  have "v \<noteq> vec3 0 0 OBSERVER_POSITION_Z"
    using assms shiftedColor_Inl_iff [of v ov NonFinite] by auto
  then show ?thesis by (rule shiftedColor_Inr_ex)
qed

lemma refresh_Inr_D:
  "refresh ov xs = Inr ys \<Longrightarrow> same_motion ys xs \<and> map color ys = map color xs
     \<and> colours_current ov ys \<and> length ys = length xs"
proof (induction xs arbitrary: ys)
  case Nil
  then show ?case by (simp add: same_motion_def colours_current_def)
next
  case (Cons x xs)
  then show ?case
    by (auto simp add: same_motion_def colours_current_def split: sum.splits)
qed

lemma refresh_fixed: "colours_current ov xs \<Longrightarrow> refresh ov xs = Inr xs"
  by (induction xs) (simp_all add: colours_current_def)

lemma refresh_idem: "refresh ov xs = Inr ys \<Longrightarrow> refresh ov ys = Inr ys"
  using refresh_Inr_D [of ov xs ys] refresh_fixed by simp

lemma refresh_defined:
  "colours_current ov xs \<Longrightarrow> \<exists>ys. refresh ov' xs = Inr ys"
proof (induction xs)
  case Nil
  then show ?case by simp
next
  case (Cons x xs)
  then obtain ys where ys: "refresh ov' xs = Inr ys"
    by (auto simp add: colours_current_def)
  from Cons.prems have "shiftedColor (velocity x) ov = Inr (dopplerShiftedColor x)"
    by (simp add: colours_current_def)
  then obtain c' where "shiftedColor (velocity x) ov' = Inr c'"
    using shiftedColor_Inr_other by blast
  with ys show ?case by simp
qed

lemma refresh_velocity_only:
  "map velocity xs = map velocity ys \<Longrightarrow>
     map_sum id (map dopplerShiftedColor) (refresh ov xs)
       = map_sum id (map dopplerShiftedColor) (refresh ov ys)"
proof (induction xs arbitrary: ys)
  case Nil
  then show ?case by simp
next
  case (Cons x xs)
  then obtain y ys' where ys: "ys = y # ys'" by (cases ys) auto
  with Cons.prems have v: "velocity x = velocity y" and vs: "map velocity xs = map velocity ys'"
    by simp_all
  from Cons.IH [OF vs] show ?case
    unfolding ys by (auto simp add: v split: sum.splits)
qed

lemma update_Inr_D:
  assumes "updateDopplerShifts s = Inr s'"
  shows "consistent s' \<and> same_motion (keplerianStars s') (keplerianStars s)
     \<and> same_motion (flatRotationStars s') (flatRotationStars s)
     \<and> observerVelocity s' = observerVelocity s \<and> viewAngle s' = viewAngle s
     \<and> length (keplerianStars s') = length (keplerianStars s)
     \<and> length (flatRotationStars s') = length (flatRotationStars s)"
proof -
  from assms obtain ks fs where
    ks: "refresh (observerVelocity s) (keplerianStars s) = Inr ks" and
    fs: "refresh (observerVelocity s) (flatRotationStars s) = Inr fs" and
    s': "s' = s\<lparr>keplerianStars := ks, flatRotationStars := fs\<rparr>"
    by (auto simp add: updateDopplerShifts_def Let_def split: sum.splits)
  show ?thesis
    using refresh_Inr_D [OF ks] refresh_Inr_D [OF fs]
    by (simp add: s' consistent_def)
qed

lemma update_fixed: "consistent s \<Longrightarrow> updateDopplerShifts s = Inr s"
  by (simp add: updateDopplerShifts_def Let_def consistent_def refresh_fixed)

lemma update_idem: "updateDopplerShifts s = Inr s' \<Longrightarrow> updateDopplerShifts s' = Inr s'"
  using update_Inr_D [of s s'] update_fixed by simp

lemma update_defined:
  assumes "colours_current ov (keplerianStars s)" and "colours_current ov (flatRotationStars s)"
  shows "\<exists>s'. updateDopplerShifts s = Inr s'"
proof -
  obtain ks where "refresh (observerVelocity s) (keplerianStars s) = Inr ks"
    using refresh_defined [OF assms(1)] by blast
  moreover obtain fs where "refresh (observerVelocity s) (flatRotationStars s) = Inr fs"
    using refresh_defined [OF assms(2)] by blast
  ultimately show ?thesis
    by (simp add: updateDopplerShifts_def Let_def)
qed

lemma same_motion_refl: "same_motion xs xs"
  by (simp add: same_motion_def)

lemma same_motion_trans: "same_motion xs ys \<Longrightarrow> same_motion ys zs \<Longrightarrow> same_motion xs zs"
  by (simp add: same_motion_def)

lemma same_motion_length: "same_motion xs ys \<Longrightarrow> length xs = length ys"
  unfolding same_motion_def using map_eq_imp_length_eq by blast

lemma update_after_set:
  assumes "updateDopplerShifts (s\<lparr>observerVelocity := v\<rparr>) = Inr s'"
  shows "consistent s' \<and> stars_kept s s' \<and> observerVelocity s' = v \<and> viewAngle s' = viewAngle s"
  using update_Inr_D [OF assms] by (simp add: stars_kept_def)

lemma update_after_reset:
  assumes "updateDopplerShifts (s\<lparr>viewAngle := 0, observerVelocity := 0,
             showKeplerian := True, showFlatRotation := True\<rparr>) = Inr s'"
  shows "consistent s' \<and> stars_kept s s' \<and> observerVelocity s' = 0 \<and> viewAngle s' = 0"
  using update_Inr_D [OF assms] by (simp add: stars_kept_def)

lemma consistent_cong:
  "observerVelocity s' = observerVelocity s \<Longrightarrow> keplerianStars s' = keplerianStars s \<Longrightarrow>
   flatRotationStars s' = flatRotationStars s \<Longrightarrow> consistent s' = consistent s"
  by (simp add: consistent_def)

lemma stars_kept_same:
  "keplerianStars s' = keplerianStars s \<Longrightarrow> flatRotationStars s' = flatRotationStars s \<Longrightarrow>
   stars_kept s s'"
  by (simp add: stars_kept_def same_motion_refl)

lemma keyboard_w:
  assumes "key = CHR ''w'' \<or> key = CHR ''W''"
  shows "keyboard key x y s = updateDopplerShifts
     (s\<lparr>observerVelocity :=
          (if observerVelocity s + 0.01 > 0.9 then 0.9 else observerVelocity s + 0.01)\<rparr>)"
  using assms by (simp add: keyboard_def Let_def)

lemma keyboard_s:
  assumes "key = CHR ''s'' \<or> key = CHR ''S''"
  shows "keyboard key x y s = updateDopplerShifts
     (s\<lparr>observerVelocity :=
          (if observerVelocity s - 0.01 < -0.9 then -0.9 else observerVelocity s - 0.01)\<rparr>)"
  using assms by (elim disjE) (simp_all add: keyboard_def Let_def)

lemma keyboard_r:
  assumes "key = CHR ''r'' \<or> key = CHR ''R''"
  shows "keyboard key x y s = updateDopplerShifts
     (s\<lparr>viewAngle := 0, observerVelocity := 0, showKeplerian := True, showFlatRotation := True\<rparr>)"
  using assms by (elim disjE) (simp_all add: keyboard_def Let_def)

lemma keyboard_other:
  assumes "\<not> (key = CHR ''w'' \<or> key = CHR ''W'')" and "\<not> (key = CHR ''s'' \<or> key = CHR ''S'')"
    and "\<not> (key = CHR ''r'' \<or> key = CHR ''R'')"
  shows "keyboard key x y s =
     (if key = CHR ''a'' \<or> key = CHR ''A'' then Inr (s\<lparr>viewAngle := viewAngle s - 5\<rparr>)
      else if key = CHR ''d'' \<or> key = CHR ''D'' then Inr (s\<lparr>viewAngle := viewAngle s + 5\<rparr>)
      else if key = CHR ''k'' \<or> key = CHR ''K'' then Inr (s\<lparr>showKeplerian := \<not> showKeplerian s\<rparr>)
      else if key = CHR ''f'' \<or> key = CHR ''F'' then
        Inr (s\<lparr>showFlatRotation := \<not> showFlatRotation s\<rparr>)
      else if key = CHR 0x1B then Inl ProcessExit
      else Inr s)"
  unfolding keyboard_def using assms by (simp only: if_False)

lemma keyboard_other_cases:
  assumes "\<not> (key = CHR ''w'' \<or> key = CHR ''W'')" and "\<not> (key = CHR ''s'' \<or> key = CHR ''S'')"
    and "\<not> (key = CHR ''r'' \<or> key = CHR ''R'')"
    and "keyboard key x y s = Inr s'"
  shows "(key = CHR ''a'' \<or> key = CHR ''A'') \<and> s' = s\<lparr>viewAngle := viewAngle s - 5\<rparr>
     \<or> (key = CHR ''d'' \<or> key = CHR ''D'') \<and> s' = s\<lparr>viewAngle := viewAngle s + 5\<rparr>
     \<or> s' = s\<lparr>showKeplerian := \<not> showKeplerian s\<rparr>
     \<or> s' = s\<lparr>showFlatRotation := \<not> showFlatRotation s\<rparr>
     \<or> s' = s"
proof -
  note k = keyboard_other [OF assms(1-3), of x y s]
  show ?thesis
  proof (cases "key = CHR ''a'' \<or> key = CHR ''A''")
    case a: True
    have "keyboard key x y s = Inr (s\<lparr>viewAngle := viewAngle s - 5\<rparr>)"
      unfolding k by (simp only: a if_True)
    with assms(4) have "s' = s\<lparr>viewAngle := viewAngle s - 5\<rparr>" by simp
    with a show ?thesis by blast
  next
    case a: False
    show ?thesis
    proof (cases "key = CHR ''d'' \<or> key = CHR ''D''")
      case d: True
      have "keyboard key x y s = Inr (s\<lparr>viewAngle := viewAngle s + 5\<rparr>)"
        unfolding k by (simp only: a d if_True if_False)
      with assms(4) have "s' = s\<lparr>viewAngle := viewAngle s + 5\<rparr>" by simp
      with d show ?thesis by blast
    next
      case d: False
      show ?thesis
      proof (cases "key = CHR ''k'' \<or> key = CHR ''K''")
        case k': True
        have "keyboard key x y s = Inr (s\<lparr>showKeplerian := \<not> showKeplerian s\<rparr>)"
          unfolding k by (simp only: a d k' if_True if_False)
        with assms(4) have "s' = s\<lparr>showKeplerian := \<not> showKeplerian s\<rparr>" by simp
        then show ?thesis by blast
      next
        case k': False
        show ?thesis
        proof (cases "key = CHR ''f'' \<or> key = CHR ''F''")
          case f: True
          have "keyboard key x y s = Inr (s\<lparr>showFlatRotation := \<not> showFlatRotation s\<rparr>)"
            unfolding k by (simp only: a d k' f if_True if_False)
          with assms(4) have "s' = s\<lparr>showFlatRotation := \<not> showFlatRotation s\<rparr>" by simp
          then show ?thesis by blast
        next
          case f: False
          show ?thesis
          proof (cases "key = CHR 0x1B")
            case e: True
            have "keyboard key x y s = Inl ProcessExit"
              unfolding k by (simp add: e)
            with assms(4) show ?thesis by simp
          next
            case e: False
            have "keyboard key x y s = Inr s"
              unfolding k by (simp only: a d k' f e if_True if_False)
            with assms(4) show ?thesis by simp
          qed
        qed
      qed
    qed
  qed
qed

lemma keyboard_other_Inr_D:
  assumes "\<not> (key = CHR ''w'' \<or> key = CHR ''W'')" and "\<not> (key = CHR ''s'' \<or> key = CHR ''S'')"
    and "\<not> (key = CHR ''r'' \<or> key = CHR ''R'')"
    and "keyboard key x y s = Inr s'"
  shows "observerVelocity s' = observerVelocity s \<and> keplerianStars s' = keplerianStars s
     \<and> flatRotationStars s' = flatRotationStars s
     \<and> (\<not> (key = CHR ''a'' \<or> key = CHR ''A'' \<or> key = CHR ''d'' \<or> key = CHR ''D'')
          \<longrightarrow> viewAngle s' = viewAngle s)"
proof -
  from keyboard_other_cases [OF assms] consider
      (a) "key = CHR ''a'' \<or> key = CHR ''A''" "s' = s\<lparr>viewAngle := viewAngle s - 5\<rparr>"
    | (d) "key = CHR ''d'' \<or> key = CHR ''D''" "s' = s\<lparr>viewAngle := viewAngle s + 5\<rparr>"
    | (k) "s' = s\<lparr>showKeplerian := \<not> showKeplerian s\<rparr>"
    | (f) "s' = s\<lparr>showFlatRotation := \<not> showFlatRotation s\<rparr>"
    | (n) "s' = s"
    by blast
  then show ?thesis
  proof cases
    case a then show ?thesis by auto
  next
    case d then show ?thesis by auto
  next
    case k then show ?thesis by simp
  next
    case f then show ?thesis by simp
  next
    case n then show ?thesis by simp
  qed
qed

lemma keyboard_Inr_D:
  assumes "keyboard key x y s = Inr s'" and "consistent s"
  shows "consistent s' \<and> stars_kept s s'"
proof -
  consider (w) "key = CHR ''w'' \<or> key = CHR ''W''"
    | (s) "key = CHR ''s'' \<or> key = CHR ''S''"
    | (r) "key = CHR ''r'' \<or> key = CHR ''R''"
    | (other) "\<not> (key = CHR ''w'' \<or> key = CHR ''W'')" "\<not> (key = CHR ''s'' \<or> key = CHR ''S'')"
        "\<not> (key = CHR ''r'' \<or> key = CHR ''R'')"
    by blast
  then show ?thesis
  proof cases
    case w
    from assms(1) show ?thesis
      unfolding keyboard_w [OF w] using update_after_set by blast
  next
    case s
    from assms(1) show ?thesis
      unfolding keyboard_s [OF s] using update_after_set by blast
  next
    case r
    from assms(1) show ?thesis
      unfolding keyboard_r [OF r] using update_after_reset by blast
  next
    case other
    from keyboard_other_Inr_D [OF other assms(1)] assms(2) show ?thesis
      using consistent_cong [of s' s] stars_kept_same [of s' s] by simp
  qed
qed

lemma handle_Inr_D:
  assumes "handle e s = Inr s'" and "consistent s"
  shows "consistent s' \<and> stars_kept s s'"
proof (cases e)
  case (Keyboard key x y)
  with assms show ?thesis using keyboard_Inr_D by simp
next
  case (Reshape w h)
  with assms(1) have "s' = reshape w h s" by simp
  with assms(2) show ?thesis
    using consistent_cong [of s' s] stars_kept_same [of s' s] by (simp add: reshape_def)
next
  case Idle
  with assms(1) have "s' = idle s" by simp
  with assms(2) show ?thesis
    using consistent_cong [of s' s] stars_kept_same [of s' s] by (simp add: idle_def Let_def)
qed

lemma stars_kept_trans: "stars_kept s s' \<Longrightarrow> stars_kept s' s'' \<Longrightarrow> stars_kept s s''"
  unfolding stars_kept_def using same_motion_trans by blast

lemma run_Inr_D:
  "run es s = Inr s' \<Longrightarrow> consistent s \<Longrightarrow> consistent s' \<and> stars_kept s s'"
proof (induction es arbitrary: s)
  case Nil
  then show ?case by (simp add: stars_kept_same)
next
  case (Cons e es)
  from Cons.prems(1) obtain t where t: "handle e s = Inr t" and r: "run es t = Inr s'"
    by (auto split: sum.splits)
  from handle_Inr_D [OF t Cons.prems(2)] have ct: "consistent t" and kt: "stars_kept s t"
    by simp_all
  from Cons.IH [OF r ct] kt show ?case
    using stars_kept_trans by blast
qed

lemma createStars_Inr_D:
  assumes "createStars ov (angle, radius, height) = Inr (k, f)"
  shows "0 < radius + 0.1
     \<and> position k = vec3 (radius * cos angle) height (radius * sin angle)
     \<and> position f = position k
     \<and> velocity k = vscale (MAX_VELOCITY * sqrt (GALAXY_RADIUS / (radius + 0.1)))
                           (vec3 (- sin angle) 0 (cos angle))
     \<and> velocity f = vscale FLAT_ROTATION_VELOCITY (vec3 (- sin angle) 0 (cos angle))
     \<and> shiftedColor (velocity k) ov = Inr (dopplerShiftedColor k)
     \<and> shiftedColor (velocity f) ov = Inr (dopplerShiftedColor f)"
  using assms
  by (auto simp add: createStars_def Let_def vscale_def split: if_splits sum.splits)

lemma keplerianSpeed_bound:
  assumes "0.1 \<le> radius"
  shows "0 \<le> MAX_VELOCITY * sqrt (GALAXY_RADIUS / (radius + 0.1))
     \<and> MAX_VELOCITY * sqrt (GALAXY_RADIUS / (radius + 0.1)) \<le> 9 / 2"
proof -
  have "15 / (radius + 0.1) \<le> 81"
    using assms by (simp add: divide_simps)
  then have "sqrt (15 / (radius + 0.1)) \<le> sqrt 81"
    by (simp only: real_sqrt_le_iff)
  also have "sqrt 81 = sqrt (9\<^sup>2)" by simp
  also have "\<dots> = 9" by simp
  finally have "sqrt (15 / (radius + 0.1)) \<le> 9" .
  moreover have "0 \<le> sqrt (15 / (radius + 0.1))"
    using assms by simp
  ultimately show ?thesis
    by (simp add: MAX_VELOCITY_def GALAXY_RADIUS_def)
qed

lemma slow_not_observer:
  assumes "0 \<le> speed" and "speed \<le> 9 / 2"
  shows "vec3 (speed * - sin angle) 0 (speed * cos angle) \<noteq> vec3 0 0 OBSERVER_POSITION_Z"
proof -
  have "speed * cos angle \<le> speed * 1"
    using assms(1) cos_le_one [of angle] by (rule mult_left_mono [rotated])
  with assms(2) have "speed * cos angle < 20" by simp
  then show ?thesis by (simp add: OBSERVER_POSITION_Z_def)
qed

lemma createStars_defined:
  assumes "in_distribution smp"
  shows "\<exists>k f. createStars ov smp = Inr (k, f)"
proof -
  obtain angle radius height where smp: "smp = (angle, radius, height)"
    by (cases smp) auto
  from assms have r: "0.1 \<le> radius"
    by (simp add: in_distribution_def smp)
  define speed where "speed = MAX_VELOCITY * sqrt (GALAXY_RADIUS / (radius + 0.1))"
  have sp: "0 \<le> speed \<and> speed \<le> 9 / 2"
    unfolding speed_def using keplerianSpeed_bound [OF r] .
  have "vec3 (speed * - sin angle) 0 (speed * cos angle) \<noteq> vec3 0 0 OBSERVER_POSITION_Z"
    using sp slow_not_observer by blast
  then obtain kc where kc:
    "shiftedColor (vec3 (speed * - sin angle) 0 (speed * cos angle)) ov = Inr kc"
    using shiftedColor_Inr_ex by blast
  have "vec3 (FLAT_ROTATION_VELOCITY * - sin angle) 0 (FLAT_ROTATION_VELOCITY * cos angle)
      \<noteq> vec3 0 0 OBSERVER_POSITION_Z"
    by (rule slow_not_observer) (simp_all add: FLAT_ROTATION_VELOCITY_def)
  then obtain fc where fc:
    "shiftedColor (vec3 (FLAT_ROTATION_VELOCITY * - sin angle) 0
        (FLAT_ROTATION_VELOCITY * cos angle)) ov = Inr fc"
    using shiftedColor_Inr_ex by blast
  from r have "\<not> radius + 0.1 \<le> 0" by simp
  then show ?thesis
    using kc fc unfolding smp createStars_def speed_def
    by (simp add: Let_def)
qed

lemma generate_Inr_D:
  "generate ov smps = Inr (ks, fs) \<Longrightarrow>
     length ks = length smps \<and> length fs = length smps
     \<and> (\<forall>i < length smps. createStars ov (smps ! i) = Inr (ks ! i, fs ! i))"
proof (induction smps arbitrary: ks fs)
  case Nil
  then show ?case by simp
next
  case (Cons smp smps)
  from Cons.prems obtain k f ks' fs' where
    c: "createStars ov smp = Inr (k, f)" and g: "generate ov smps = Inr (ks', fs')"
    and ks: "ks = k # ks'" and fs: "fs = f # fs'"
    by (auto split: sum.splits prod.splits)
  from Cons.IH [OF g] c show ?case
    unfolding ks fs by (auto simp add: nth_Cons split: nat.splits)
qed

lemma generate_defined:
  "\<forall>smp \<in> set smps. in_distribution smp \<Longrightarrow> \<exists>ks fs. generate ov smps = Inr (ks, fs)"
proof (induction smps)
  case Nil
  then show ?case by simp
next
  case (Cons smp smps)
  then obtain ks fs where g: "generate ov smps = Inr (ks, fs)" by auto
  from Cons.prems obtain k f where "createStars ov smp = Inr (k, f)"
    using createStars_defined [of smp ov] by auto
  with g show ?case by simp
qed

lemma main_Inr_D:
  assumes "main draws = Inr s0"
  shows "observerVelocity s0 = 0 \<and> viewAngle s0 = 0
     \<and> length (keplerianStars s0) = NUM_STARS \<and> length (flatRotationStars s0) = NUM_STARS
     \<and> (\<forall>i < NUM_STARS. createStars 0 (draws i)
            = Inr (keplerianStars s0 ! i, flatRotationStars s0 ! i))"
proof -
  from assms obtain ks fs where
    g: "generate 0 (map draws [0..<NUM_STARS]) = Inr (ks, fs)" and
    s0: "s0 = globals\<lparr>keplerianStars := ks, flatRotationStars := fs\<rparr>"
    by (auto simp add: main_def initializeStars_def globals_def split: sum.splits prod.splits)
  from generate_Inr_D [OF g] show ?thesis
    by (simp add: s0 globals_def)
qed

lemma main_defined:
  assumes "valid_draws draws"
  shows "\<exists>s0. main draws = Inr s0"
proof -
  from assms have "\<forall>smp \<in> set (map draws [0..<NUM_STARS]). in_distribution smp"
    by (auto simp add: valid_draws_def)
  then obtain ks fs where "generate 0 (map draws [0..<NUM_STARS]) = Inr (ks, fs)"
    using generate_defined by blast
  then show ?thesis
    by (simp add: main_def initializeStars_def globals_def)
qed

lemma main_consistent:
  assumes "main draws = Inr s0"
  shows "consistent s0"
proof -
  note m = main_Inr_D [OF assms]
  have "shiftedColor (velocity (keplerianStars s0 ! i)) 0
          = Inr (dopplerShiftedColor (keplerianStars s0 ! i))
      \<and> shiftedColor (velocity (flatRotationStars s0 ! i)) 0
          = Inr (dopplerShiftedColor (flatRotationStars s0 ! i))" if "i < NUM_STARS" for i
  proof -
    obtain angle radius height where d: "draws i = (angle, radius, height)"
      by (cases "draws i") auto
    from m that have "createStars 0 (draws i)
        = Inr (keplerianStars s0 ! i, flatRotationStars s0 ! i)" by simp
    from createStars_Inr_D [OF this [unfolded d]] show ?thesis by blast
  qed
  with m show ?thesis
    by (simp add: consistent_def colours_current_def list_all_length)
qed

lemma consistent_colour:
  assumes "consistent s" and "star \<in> set (keplerianStars s) \<union> set (flatRotationStars s)"
  shows "\<exists>factor. calculateRelativisticDopplerShift (velocity star)
                     (vec3 0 0 (observerVelocity s)) = Some factor
           \<and> dopplerShiftedColor star = wavelengthToRGB (clamp (0.5 * factor) 0 1)"
proof -
  from assms have "shiftedColor (velocity star) (observerVelocity s)
      = Inr (dopplerShiftedColor star)"
    by (auto simp add: consistent_def colours_current_def list_all_iff)
  then show ?thesis by (rule shiftedColor_Inr_D)
qed

lemma reachable_D:
  assumes "main draws = Inr s0" and "run es s0 = Inr s"
  shows "consistent s \<and> stars_kept s0 s"
  using run_Inr_D [OF assms(2) main_consistent [OF assms(1)]] .

lemma keyboard_defined:
  assumes "consistent s" and "key \<noteq> CHR 0x1B"
  shows "\<exists>s'. keyboard key x y s = Inr s'"
proof -
  have upd: "\<exists>s'. updateDopplerShifts t = Inr s'"
    if "keplerianStars t = keplerianStars s" "flatRotationStars t = flatRotationStars s" for t
    using assms(1) that update_defined [of "observerVelocity s" t]
    by (simp add: consistent_def)
  consider (w) "key = CHR ''w'' \<or> key = CHR ''W''"
    | (s) "key = CHR ''s'' \<or> key = CHR ''S''"
    | (r) "key = CHR ''r'' \<or> key = CHR ''R''"
    | (other) "\<not> (key = CHR ''w'' \<or> key = CHR ''W'')" "\<not> (key = CHR ''s'' \<or> key = CHR ''S'')"
        "\<not> (key = CHR ''r'' \<or> key = CHR ''R'')"
    by blast
  then show ?thesis
  proof cases
    case w
    show ?thesis unfolding keyboard_w [OF w] by (rule upd) simp_all
  next
    case s
    show ?thesis unfolding keyboard_s [OF s] by (rule upd) simp_all
  next
    case r
    show ?thesis unfolding keyboard_r [OF r] by (rule upd) simp_all
  next
    case other
    show ?thesis unfolding keyboard_other [OF other] using assms(2) by simp
  qed
qed

lemma handle_defined:
  assumes "consistent s" and "\<not> exits e"
  shows "\<exists>s'. handle e s = Inr s'"
  using assms keyboard_defined by (cases e) auto

lemma run_defined:
  "consistent s \<Longrightarrow> list_all (\<lambda>e. \<not> exits e) es \<Longrightarrow> \<exists>s'. run es s = Inr s'"
proof (induction es arbitrary: s)
  case Nil
  then show ?case by simp
next
  case (Cons e es)
  then obtain t where t: "handle e s = Inr t"
    using handle_defined [of s e] by auto
  from handle_Inr_D [OF t Cons.prems(1)] have "consistent t" by simp
  with Cons obtain s' where "run es t = Inr s'" by auto
  with t show ?case by simp
qed

lemma example_draws_valid: "valid_draws example_draws"
  by (simp add: valid_draws_def example_draws_def in_distribution_def GALAXY_RADIUS_def)

lemma vlength_tangent: "vlength (vec3 (- sin angle) 0 (cos angle)) = 1"
  by (simp add: vlength_def dot_def flip: power2_eq_square)

lemma stars_kept_nth:
  assumes "stars_kept s0 s"
  shows "length (keplerianStars s) = length (keplerianStars s0)
     \<and> length (flatRotationStars s) = length (flatRotationStars s0)
     \<and> (\<forall>i < length (keplerianStars s0).
           position (keplerianStars s ! i) = position (keplerianStars s0 ! i)
           \<and> velocity (keplerianStars s ! i) = velocity (keplerianStars s0 ! i))
     \<and> (\<forall>i < length (flatRotationStars s0).
           position (flatRotationStars s ! i) = position (flatRotationStars s0 ! i)
           \<and> velocity (flatRotationStars s ! i) = velocity (flatRotationStars s0 ! i))"
proof -
  have *: "length xs = length ys \<and> (\<forall>i < length ys. position (xs ! i) = position (ys ! i)
             \<and> velocity (xs ! i) = velocity (ys ! i))"
    if "same_motion xs ys" for xs ys :: "Star list"
  proof -
    from that have l: "length xs = length ys" by (rule same_motion_length)
    have "position (xs ! i) = position (ys ! i) \<and> velocity (xs ! i) = velocity (ys ! i)"
      if "i < length ys" for i
    proof -
      from \<open>same_motion xs ys\<close> have "map position xs ! i = map position ys ! i"
        and "map velocity xs ! i = map velocity ys ! i"
        by (simp_all add: same_motion_def)
      with that l show ?thesis by simp
    qed
    with l show ?thesis by blast
  qed
  from assms show ?thesis
    unfolding stars_kept_def using * by blast
qed

lemma generated_star:
  assumes "main draws = Inr s0" and "run es s0 = Inr s" and "i < NUM_STARS"
    and "draws i = (angle, radius, height)"
  shows "0 < radius + 0.1
     \<and> position (keplerianStars s ! i) = vec3 (radius * cos angle) height (radius * sin angle)
     \<and> position (flatRotationStars s ! i) = position (keplerianStars s ! i)
     \<and> velocity (keplerianStars s ! i)
         = vscale (MAX_VELOCITY * sqrt (GALAXY_RADIUS / (radius + 0.1)))
                  (vec3 (- sin angle) 0 (cos angle))
     \<and> velocity (flatRotationStars s ! i)
         = vscale FLAT_ROTATION_VELOCITY (vec3 (- sin angle) 0 (cos angle))
     \<and> i < length (keplerianStars s) \<and> i < length (flatRotationStars s)"
proof -
  note m = main_Inr_D [OF assms(1)]
  from m assms(3) have "createStars 0 (draws i)
      = Inr (keplerianStars s0 ! i, flatRotationStars s0 ! i)" by blast
  then have "createStars 0 (angle, radius, height)
      = Inr (keplerianStars s0 ! i, flatRotationStars s0 ! i)" by (simp only: assms(4))
  note c = createStars_Inr_D [OF this]
  from reachable_D [OF assms(1,2)] have "stars_kept s0 s" by simp
  note k = stars_kept_nth [OF this]
  from m assms(3) k have "position (keplerianStars s ! i) = position (keplerianStars s0 ! i)"
    and "velocity (keplerianStars s ! i) = velocity (keplerianStars s0 ! i)"
    and "position (flatRotationStars s ! i) = position (flatRotationStars s0 ! i)"
    and "velocity (flatRotationStars s ! i) = velocity (flatRotationStars s0 ! i)"
    and "i < length (keplerianStars s)" and "i < length (flatRotationStars s)"
    by simp_all
  with c show ?thesis by simp
qed



text \<open>
  Claim C4. In every state reached from start-up by any sequence of events, the positions
  and the velocities of both populations are those of start-up, and the displayed colour of
  every star is \<open>wavelengthToRGB (clamp (0.5 * factor) 0 1)\<close> for the Doppler factor of its
  velocity and of the observer's velocity \<open>(0, 0, observerVelocity)\<close>. So the updater
  changes nothing in such a state, and in any state at all a second run of the updater
  changes nothing after the first, which itself leaves positions and velocities as they
  were. From such a state every sequence of events without the escape key runs to a state.
\<close>

theorem displayed_colour_derived:
  assumes "main draws = Inr s0" and "run es s0 = Inr s"
  shows "map position (keplerianStars s) = map position (keplerianStars s0)
     \<and> map velocity (keplerianStars s) = map velocity (keplerianStars s0)
     \<and> map position (flatRotationStars s) = map position (flatRotationStars s0)
     \<and> map velocity (flatRotationStars s) = map velocity (flatRotationStars s0)
     \<and> (\<forall>star \<in> set (keplerianStars s) \<union> set (flatRotationStars s).
           \<exists>factor. calculateRelativisticDopplerShift (velocity star)
                       (vec3 0 0 (observerVelocity s)) = Some factor
              \<and> dopplerShiftedColor star = wavelengthToRGB (clamp (0.5 * factor) 0 1))
     \<and> updateDopplerShifts s = Inr s
     \<and> (\<forall>es'. list_all (\<lambda>e. \<not> exits e) es' \<longrightarrow> (\<exists>t. run es' s = Inr t))
     \<and> (\<forall>t t'. updateDopplerShifts t = Inr t' \<longrightarrow>
           updateDopplerShifts t' = Inr t'
           \<and> map position (keplerianStars t') = map position (keplerianStars t)
           \<and> map velocity (keplerianStars t') = map velocity (keplerianStars t)
           \<and> map position (flatRotationStars t') = map position (flatRotationStars t)
           \<and> map velocity (flatRotationStars t') = map velocity (flatRotationStars t))"
proof -
  from reachable_D [OF assms] have c: "consistent s" and k: "stars_kept s0 s"
    by simp_all
  have upd: "updateDopplerShifts t' = Inr t'
           \<and> map position (keplerianStars t') = map position (keplerianStars t)
           \<and> map velocity (keplerianStars t') = map velocity (keplerianStars t)
           \<and> map position (flatRotationStars t') = map position (flatRotationStars t)
           \<and> map velocity (flatRotationStars t') = map velocity (flatRotationStars t)"
    if "updateDopplerShifts t = Inr t'" for t t'
    using update_idem [OF that] update_Inr_D [OF that] by (simp add: same_motion_def)
  from k have "map position (keplerianStars s) = map position (keplerianStars s0)
     \<and> map velocity (keplerianStars s) = map velocity (keplerianStars s0)
     \<and> map position (flatRotationStars s) = map position (flatRotationStars s0)
     \<and> map velocity (flatRotationStars s) = map velocity (flatRotationStars s0)"
    by (simp add: stars_kept_def same_motion_def)
  with consistent_colour [OF c] update_fixed [OF c] run_defined [OF c] upd show ?thesis
    by blast
qed

theorem displayed_colour_derived_witness:
  "\<exists>s0 s. main example_draws = Inr s0
     \<and> run [Keyboard (CHR ''w'') 0 0, Idle] s0 = Inr s
     \<and> updateDopplerShifts s = Inr s
     \<and> map velocity (keplerianStars s) = map velocity (keplerianStars s0)
     \<and> map position (flatRotationStars s) = map position (flatRotationStars s0)"
proof -
  obtain s0 where m: "main example_draws = Inr s0"
    using main_defined [OF example_draws_valid] by blast
  have "list_all (\<lambda>e. \<not> exits e) [Keyboard (CHR ''w'') 0 0, Idle]" by simp
  then obtain s where r: "run [Keyboard (CHR ''w'') 0 0, Idle] s0 = Inr s"
    using run_defined [OF main_consistent [OF m]] by blast
  from displayed_colour_derived [OF m r] m r show ?thesis by blast
qed

lemma flat_same_angle:
  assumes "main draws = Inr s0" and "run es s0 = Inr s"
    and "i < NUM_STARS" and "j < NUM_STARS" and "fst (draws i) = fst (draws j)"
  shows "velocity (flatRotationStars s ! i) = velocity (flatRotationStars s ! j)
     \<and> dopplerShiftedColor (flatRotationStars s ! i) = dopplerShiftedColor (flatRotationStars s ! j)"
proof -
  obtain angle ri hi where di: "draws i = (angle, ri, hi)" by (cases "draws i") auto
  with assms(5) obtain rj hj where dj: "draws j = (angle, rj, hj)" by (cases "draws j") auto
  note gi = generated_star [OF assms(1,2,3) di]
  note gj = generated_star [OF assms(1,2,4) dj]
  from gi gj have v: "velocity (flatRotationStars s ! i) = velocity (flatRotationStars s ! j)"
    by simp
  from reachable_D [OF assms(1,2)] have "consistent s" by simp
  then have cc: "colours_current (observerVelocity s) (flatRotationStars s)"
    by (simp add: consistent_def)
  from gi gj have "i < length (flatRotationStars s)" and "j < length (flatRotationStars s)"
    by simp_all
  with cc have "shiftedColor (velocity (flatRotationStars s ! i)) (observerVelocity s)
        = Inr (dopplerShiftedColor (flatRotationStars s ! i))"
    and "shiftedColor (velocity (flatRotationStars s ! j)) (observerVelocity s)
        = Inr (dopplerShiftedColor (flatRotationStars s ! j))"
    by (simp_all add: colours_current_def list_all_length)
  with v show ?thesis by simp
qed

text \<open>
  Claim C10. Two flat-rotation stars that were generated with the same angle have the same
  velocity, whatever their radii and heights; so they have the same Doppler factor for
  every observer velocity, and the same displayed colour in every state reached from
  start-up.
\<close>

theorem flat_colour_ignores_radius_and_height:
  assumes "main draws = Inr s0" and "run es s0 = Inr s"
    and "i < NUM_STARS" and "j < NUM_STARS" and "fst (draws i) = fst (draws j)"
  shows "velocity (flatRotationStars s ! i) = velocity (flatRotationStars s ! j)
     \<and> (\<forall>observerVel.
           calculateRelativisticDopplerShift (velocity (flatRotationStars s ! i)) observerVel
             = calculateRelativisticDopplerShift (velocity (flatRotationStars s ! j)) observerVel)
     \<and> (\<forall>v. shiftedColor (velocity (flatRotationStars s ! i)) v
             = shiftedColor (velocity (flatRotationStars s ! j)) v)
     \<and> dopplerShiftedColor (flatRotationStars s ! i) = dopplerShiftedColor (flatRotationStars s ! j)"
  using flat_same_angle [OF assms] by simp

theorem flat_colour_ignores_radius_and_height_witness:
  "\<exists>s0 s. main example_draws = Inr s0
     \<and> run [Keyboard (CHR ''s'') 0 0, Keyboard (CHR ''s'') 0 0] s0 = Inr s
     \<and> snd (example_draws 0) \<noteq> snd (example_draws 1)
     \<and> dopplerShiftedColor (flatRotationStars s ! 0) = dopplerShiftedColor (flatRotationStars s ! 1)"
proof -
  obtain s0 where m: "main example_draws = Inr s0"
    using main_defined [OF example_draws_valid] by blast
  have "list_all (\<lambda>e. \<not> exits e) [Keyboard (CHR ''s'') 0 0, Keyboard (CHR ''s'') 0 0]" by simp
  then obtain s where r: "run [Keyboard (CHR ''s'') 0 0, Keyboard (CHR ''s'') 0 0] s0 = Inr s"
    using run_defined [OF main_consistent [OF m]] by blast
  have i0: "0 < NUM_STARS" and i1: "1 < NUM_STARS" by (simp_all add: NUM_STARS_def)
  have a: "fst (example_draws 0) = fst (example_draws 1)"
    and d: "snd (example_draws 0) \<noteq> snd (example_draws 1)"
    by (simp_all add: example_draws_def)
  from flat_colour_ignores_radius_and_height [OF m r i0 i1 a] m r d show ?thesis by blast
qed

lemma keyboard_w_D:
  assumes "key = CHR ''w'' \<or> key = CHR ''W''" and "keyboard key x y s = Inr s'"
  shows "observerVelocity s'
           = (if observerVelocity s + 0.01 > 0.9 then 0.9 else observerVelocity s + 0.01)
     \<and> viewAngle s' = viewAngle s"
  using assms(2) unfolding keyboard_w [OF assms(1)] using update_after_set by blast

lemma keyboard_s_D:
  assumes "key = CHR ''s'' \<or> key = CHR ''S''" and "keyboard key x y s = Inr s'"
  shows "observerVelocity s'
           = (if observerVelocity s - 0.01 < -0.9 then -0.9 else observerVelocity s - 0.01)
     \<and> viewAngle s' = viewAngle s"
  using assms(2) unfolding keyboard_s [OF assms(1)] using update_after_set by blast

lemma keyboard_r_D:
  assumes "key = CHR ''r'' \<or> key = CHR ''R''" and "keyboard key x y s = Inr s'"
  shows "observerVelocity s' = 0 \<and> viewAngle s' = 0"
  using assms(2) unfolding keyboard_r [OF assms(1)] using update_after_reset by blast

lemma keyboard_bounds:
  assumes "keyboard key x y s = Inr s'"
    and "-0.9 \<le> observerVelocity s" and "observerVelocity s \<le> 0.9"
  shows "-0.9 \<le> observerVelocity s' \<and> observerVelocity s' \<le> 0.9"
proof -
  consider (w) "key = CHR ''w'' \<or> key = CHR ''W''"
    | (s) "key = CHR ''s'' \<or> key = CHR ''S''"
    | (r) "key = CHR ''r'' \<or> key = CHR ''R''"
    | (other) "\<not> (key = CHR ''w'' \<or> key = CHR ''W'')" "\<not> (key = CHR ''s'' \<or> key = CHR ''S'')"
        "\<not> (key = CHR ''r'' \<or> key = CHR ''R'')"
    by blast
  then show ?thesis
  proof cases
    case w
    from keyboard_w_D [OF w assms(1)] assms(2,3) show ?thesis by simp
  next
    case s
    from keyboard_s_D [OF s assms(1)] assms(2,3) show ?thesis by simp
  next
    case r
    from keyboard_r_D [OF r assms(1)] show ?thesis by simp
  next
    case other
    from keyboard_other_Inr_D [OF other assms(1)] assms(2,3) show ?thesis by simp
  qed
qed

lemma handle_bounds:
  assumes "handle e s = Inr s'"
    and "-0.9 \<le> observerVelocity s" and "observerVelocity s \<le> 0.9"
  shows "-0.9 \<le> observerVelocity s' \<and> observerVelocity s' \<le> 0.9"
proof (cases e)
  case (Keyboard key x y)
  with assms show ?thesis using keyboard_bounds by simp
next
  case (Reshape w h)
  with assms show ?thesis by (auto simp add: reshape_def)
next
  case Idle
  with assms show ?thesis by (auto simp add: idle_def Let_def)
qed

lemma run_bounds:
  "run es s = Inr s' \<Longrightarrow> -0.9 \<le> observerVelocity s \<Longrightarrow> observerVelocity s \<le> 0.9 \<Longrightarrow>
     -0.9 \<le> observerVelocity s' \<and> observerVelocity s' \<le> 0.9"
proof (induction es arbitrary: s)
  case Nil
  then show ?case by simp
next
  case (Cons e es)
  from Cons.prems(1) obtain t where t: "handle e s = Inr t" and r: "run es t = Inr s'"
    by (auto split: sum.splits)
  from handle_bounds [OF t Cons.prems(2,3)] Cons.IH [OF r] show ?case by simp
qed

lemma accel_step:
  fixes v n :: real
  assumes "0 \<le> n"
  shows "min 0.9 ((if v + 0.01 > 0.9 then 0.9 else v + 0.01) + n * 0.01)
       = min 0.9 (v + (n + 1) * 0.01)"
proof (cases "v + 0.01 > 0.9")
  case True
  from assms have "0 \<le> n * 0.01" by simp
  then have "(0.9::real) \<le> 0.9 + n * 0.01" by linarith
  moreover have "v + (n + 1) * 0.01 = (v + 0.01) + n * 0.01" by (simp add: algebra_simps)
  with True \<open>0 \<le> n * 0.01\<close> have "0.9 \<le> v + (n + 1) * 0.01" by linarith
  ultimately show ?thesis using True by (simp add: min_def)
next
  case False
  have eq: "v + 0.01 + n * 0.01 = v + (n + 1) * 0.01" by (simp add: algebra_simps)
  from False have i: "(if v + 0.01 > 0.9 then 0.9 else v + 0.01) = v + 0.01" by (rule if_not_P)
  show ?thesis unfolding i eq by (rule refl)
qed

lemma run_increases:
  "consistent s \<Longrightarrow> observerVelocity s \<le> 0.9 \<Longrightarrow> list_all increases ws \<Longrightarrow>
     \<exists>s'. run ws s = Inr s'
        \<and> observerVelocity s' = min 0.9 (observerVelocity s + real (length ws) * 0.01)"
proof (induction ws arbitrary: s)
  case Nil
  then show ?case by simp
next
  case (Cons e ws)
  from Cons.prems(3) obtain key x y where e: "e = Keyboard key x y"
    and w: "key = CHR ''w'' \<or> key = CHR ''W''"
    by (cases e) auto
  from w have "key \<noteq> CHR 0x1B" by auto
  then obtain t where t: "keyboard key x y s = Inr t"
    using keyboard_defined [OF Cons.prems(1)] by blast
  from keyboard_Inr_D [OF t Cons.prems(1)] have ct: "consistent t" by simp
  from keyboard_w_D [OF w t] have vt: "observerVelocity t
      = (if observerVelocity s + 0.01 > 0.9 then 0.9 else observerVelocity s + 0.01)"
    by simp
  with Cons.prems(2) have bt: "observerVelocity t \<le> 0.9" by simp
  from Cons.prems(3) have "list_all increases ws" by simp
  from Cons.IH [OF ct bt this] obtain s' where r: "run ws t = Inr s'"
    and v: "observerVelocity s' = min 0.9 (observerVelocity t + real (length ws) * 0.01)"
    by blast
  have "min 0.9 (observerVelocity t + real (length ws) * 0.01)
      = min 0.9 (observerVelocity s + (real (length ws) + 1) * 0.01)"
    unfolding vt by (rule accel_step) simp
  also have "real (length ws) + 1 = real (length (e # ws))" by simp
  finally have "observerVelocity s'
      = min 0.9 (observerVelocity s + real (length (e # ws)) * 0.01)"
    using v by simp
  moreover from r t e have "run (e # ws) s = Inr s'" by simp
  ultimately show ?case by blast
qed

lemma main_velocity_zero: "main draws = Inr s0 \<Longrightarrow> observerVelocity s0 = 0 \<and> viewAngle s0 = 0"
  using main_Inr_D by blast

lemma reachable_bounds:
  assumes "main draws = Inr s0" and "run es s0 = Inr s"
  shows "-0.9 \<le> observerVelocity s \<and> observerVelocity s \<le> 0.9"
  using run_bounds [OF assms(2)] main_velocity_zero [OF assms(1)] by simp

text \<open>
  Claim C6. In every state reached from start-up the observer's velocity lies in
  \<open>[-0.9, 0.9]\<close>; there, a velocity-increase key sets it to \<open>observerVelocity + 0.01\<close>
  clamped to \<open>[-0.9, 0.9]\<close> and a velocity-decrease key to \<open>observerVelocity - 0.01\<close> clamped
  likewise; and 95 velocity-increase keys in a row, from a velocity of 0, leave it at
  exactly 0.9.
\<close>

theorem observer_velocity_clamped:
  assumes "main draws = Inr s0" and "run es s0 = Inr s"
  shows "-0.9 \<le> observerVelocity s \<and> observerVelocity s \<le> 0.9
     \<and> (\<forall>key x y. key = CHR ''w'' \<or> key = CHR ''W'' \<longrightarrow>
           (\<exists>s'. keyboard key x y s = Inr s'
              \<and> observerVelocity s' = clamp (observerVelocity s + 0.01) (-0.9) 0.9))
     \<and> (\<forall>key x y. key = CHR ''s'' \<or> key = CHR ''S'' \<longrightarrow>
           (\<exists>s'. keyboard key x y s = Inr s'
              \<and> observerVelocity s' = clamp (observerVelocity s - 0.01) (-0.9) 0.9))
     \<and> (\<forall>ws. observerVelocity s = 0 \<and> length ws = 95 \<and> list_all increases ws \<longrightarrow>
           (\<exists>s'. run ws s = Inr s' \<and> observerVelocity s' = 0.9))"
proof -
  note b = reachable_bounds [OF assms]
  from reachable_D [OF assms] have c: "consistent s" by simp
  have up: "\<exists>s'. keyboard key x y s = Inr s'
              \<and> observerVelocity s' = clamp (observerVelocity s + 0.01) (-0.9) 0.9"
    if w: "key = CHR ''w'' \<or> key = CHR ''W''" for key x y
  proof -
    from w have "key \<noteq> CHR 0x1B" by auto
    then obtain s' where k: "keyboard key x y s = Inr s'"
      using keyboard_defined [OF c] by blast
    from keyboard_w_D [OF w k] b
    have "observerVelocity s' = clamp (observerVelocity s + 0.01) (-0.9) 0.9"
      by (simp add: clamp_def min_def max_def)
    with k show ?thesis by blast
  qed
  have down: "\<exists>s'. keyboard key x y s = Inr s'
              \<and> observerVelocity s' = clamp (observerVelocity s - 0.01) (-0.9) 0.9"
    if w: "key = CHR ''s'' \<or> key = CHR ''S''" for key x y
  proof -
    from w have "key \<noteq> CHR 0x1B" by auto
    then obtain s' where k: "keyboard key x y s = Inr s'"
      using keyboard_defined [OF c] by blast
    from keyboard_s_D [OF w k] b
    have "observerVelocity s' = clamp (observerVelocity s - 0.01) (-0.9) 0.9"
      by (simp add: clamp_def min_def max_def)
    with k show ?thesis by blast
  qed
  have sat: "\<exists>s'. run ws s = Inr s' \<and> observerVelocity s' = 0.9"
    if "observerVelocity s = 0 \<and> length ws = 95 \<and> list_all increases ws" for ws
  proof -
    from that b have "observerVelocity s \<le> 0.9" and "list_all increases ws" by simp_all
    from run_increases [OF c this] obtain s' where "run ws s = Inr s'"
      and "observerVelocity s' = min 0.9 (observerVelocity s + real (length ws) * 0.01)"
      by blast
    with that show ?thesis by simp
  qed
  from b up down sat show ?thesis by blast
qed

theorem observer_velocity_clamped_witness:
  "\<exists>s0 s'. main example_draws = Inr s0
     \<and> observerVelocity s0 = 0
     \<and> run (replicate 95 (Keyboard (CHR ''w'') 0 0)) s0 = Inr s'
     \<and> observerVelocity s' = 0.9"
proof -
  obtain s0 where m: "main example_draws = Inr s0"
    using main_defined [OF example_draws_valid] by blast
  have r: "run [] s0 = Inr s0" by simp
  have z: "observerVelocity s0 = 0" using main_velocity_zero [OF m] by simp
  have inc: "increases (Keyboard (CHR ''w'') 0 0)" by simp
  have l: "length (replicate 95 (Keyboard (CHR ''w'') 0 0)) = 95"
    by (rule length_replicate)
  have a: "list_all increases (replicate 95 (Keyboard (CHR ''w'') 0 0))"
    unfolding list_all_iff using inc by (simp only: set_replicate_conv_if) simp
  note t = observer_velocity_clamped [OF m r, THEN conjunct2, THEN conjunct2, THEN conjunct2,
      THEN conjunct2, rule_format, of "replicate 95 (Keyboard (CHR ''w'') 0 0)"]
  from t [OF conjI [OF z conjI [OF l a]]]
  obtain s' where "run (replicate 95 (Keyboard (CHR ''w'') 0 0)) s0 = Inr s'"
    and "observerVelocity s' = 0.9"
    by blast
  with m z show ?thesis by blast
qed

lemma idle_angle:
  "viewAngle (idle s)
     = (if viewAngle s + 0.1 > 360 then viewAngle s + 0.1 - 360 else viewAngle s + 0.1)"
  by (simp add: idle_def Let_def)

lemma idle_range:
  assumes "0 \<le> viewAngle s" and "viewAngle s \<le> 360"
  shows "0 < viewAngle (idle s) \<and> viewAngle (idle s) \<le> 360"
  using assms by (simp add: idle_angle)

lemma keyboard_angle:
  assumes "keyboard key x y s = Inr s'"
    and "\<not> (key = CHR ''a'' \<or> key = CHR ''A'' \<or> key = CHR ''d'' \<or> key = CHR ''D'')"
    and "0 \<le> viewAngle s" and "viewAngle s \<le> 360"
  shows "0 \<le> viewAngle s' \<and> viewAngle s' \<le> 360"
proof -
  consider (w) "key = CHR ''w'' \<or> key = CHR ''W''"
    | (s) "key = CHR ''s'' \<or> key = CHR ''S''"
    | (r) "key = CHR ''r'' \<or> key = CHR ''R''"
    | (other) "\<not> (key = CHR ''w'' \<or> key = CHR ''W'')" "\<not> (key = CHR ''s'' \<or> key = CHR ''S'')"
        "\<not> (key = CHR ''r'' \<or> key = CHR ''R'')"
    by blast
  then show ?thesis
  proof cases
    case w
    from keyboard_w_D [OF w assms(1)] assms(3,4) show ?thesis by simp
  next
    case s
    from keyboard_s_D [OF s assms(1)] assms(3,4) show ?thesis by simp
  next
    case r
    from keyboard_r_D [OF r assms(1)] show ?thesis by simp
  next
    case other
    from keyboard_other_Inr_D [OF other assms(1)] assms(2,3,4) show ?thesis by simp
  qed
qed

lemma handle_angle:
  assumes "handle e s = Inr s'" and "\<not> rotates e"
    and "0 \<le> viewAngle s" and "viewAngle s \<le> 360"
  shows "0 \<le> viewAngle s' \<and> viewAngle s' \<le> 360"
proof (cases e)
  case (Keyboard key x y)
  with assms show ?thesis using keyboard_angle [of key x y s s'] by simp
next
  case (Reshape w h)
  with assms show ?thesis by (auto simp add: reshape_def)
next
  case Idle
  with assms(1) have "s' = idle s" by simp
  with idle_range [OF assms(3,4)] show ?thesis by simp
qed

lemma run_angle:
  "run es s = Inr s' \<Longrightarrow> list_all (\<lambda>e. \<not> rotates e) es \<Longrightarrow>
     0 \<le> viewAngle s \<Longrightarrow> viewAngle s \<le> 360 \<Longrightarrow> 0 \<le> viewAngle s' \<and> viewAngle s' \<le> 360"
proof (induction es arbitrary: s)
  case Nil
  then show ?case by simp
next
  case (Cons e es)
  from Cons.prems(1) obtain t where t: "handle e s = Inr t" and r: "run es t = Inr s'"
    by (auto split: sum.splits)
  from Cons.prems(2) have ne: "\<not> rotates e" and rest: "list_all (\<lambda>e. \<not> rotates e) es"
    by simp_all
  from handle_angle [OF t ne Cons.prems(3,4)] Cons.IH [OF r rest] show ?case by simp
qed

lemma keyboard_rotation:
  "keyboard (CHR ''a'') x y s = Inr (s\<lparr>viewAngle := viewAngle s - 5\<rparr>)"
  "keyboard (CHR ''d'') x y s = Inr (s\<lparr>viewAngle := viewAngle s + 5\<rparr>)"
  by (simp_all add: keyboard_def)

text \<open>
  Claim C9, as stated: after an idle tick the view angle lies in \<open>[0, 360)\<close>, in every
  reachable state, also after rotation keys. One rotation to the left from start-up and
  one idle tick leave the angle at -4.9.
\<close>

theorem idle_after_rotation_counterexample:
  "map_sum id viewAngle (program example_draws [Keyboard (CHR ''a'') 0 0, Idle])
     = Inr (- (49 / 10))
   \<and> map_sum id wrapped (program example_draws [Keyboard (CHR ''a'') 0 0, Idle]) = Inr False"
proof -
  obtain s0 where m: "main example_draws = Inr s0"
    using main_defined [OF example_draws_valid] by blast
  from main_velocity_zero [OF m] have a0: "viewAngle s0 = 0" by simp
  have "program example_draws [Keyboard (CHR ''a'') 0 0, Idle]
      = Inr (idle (s0\<lparr>viewAngle := viewAngle s0 - 5\<rparr>))"
    by (simp add: program_def m keyboard_rotation)
  moreover have "viewAngle (idle (s0\<lparr>viewAngle := viewAngle s0 - 5\<rparr>)) = - (49 / 10)"
    by (simp add: idle_angle a0)
  ultimately show ?thesis by (simp add: wrapped_def)
qed

text \<open>
  Claim C9, amended: an idle tick adds 0.1 to the view angle and subtracts 360 once when
  the sum exceeds 360. From an angle in \<open>[0, 360]\<close> the angle after the tick lies in
  \<open>(0, 360]\<close>, and the angle is in \<open>[0, 360]\<close> in every state reached from start-up
  without rotation keys. The rotation keys step the angle by 5 either way with no wrap.
\<close>

theorem idle_wraps_once:
  "viewAngle (idle s)
     = (if viewAngle s + 0.1 > 360 then viewAngle s + 0.1 - 360 else viewAngle s + 0.1)
   \<and> (0 \<le> viewAngle s \<and> viewAngle s \<le> 360 \<longrightarrow>
        0 < viewAngle (idle s) \<and> viewAngle (idle s) \<le> 360)
   \<and> (main draws = Inr s0 \<and> run es s0 = Inr s \<and> list_all (\<lambda>e. \<not> rotates e) es \<longrightarrow>
        0 \<le> viewAngle s \<and> viewAngle s \<le> 360)
   \<and> keyboard (CHR ''a'') x y s = Inr (s\<lparr>viewAngle := viewAngle s - 5\<rparr>)
   \<and> keyboard (CHR ''d'') x y s = Inr (s\<lparr>viewAngle := viewAngle s + 5\<rparr>)"
proof -
  have "0 \<le> viewAngle s \<and> viewAngle s \<le> 360"
    if "main draws = Inr s0 \<and> run es s0 = Inr s \<and> list_all (\<lambda>e. \<not> rotates e) es"
    using that run_angle [of es s0 s] main_velocity_zero [of draws s0] by simp
  with idle_angle [of s] idle_range [of s] keyboard_rotation [of x y s] show ?thesis
    by blast
qed

theorem idle_wraps_once_witness:
  "\<exists>s0 s. main example_draws = Inr s0
     \<and> run [Idle, Keyboard (CHR ''w'') 0 0, Idle] s0 = Inr s
     \<and> 0 \<le> viewAngle s \<and> viewAngle s \<le> 360
     \<and> 0 < viewAngle (idle s) \<and> viewAngle (idle s) \<le> 360"
proof -
  obtain s0 where m: "main example_draws = Inr s0"
    using main_defined [OF example_draws_valid] by blast
  have ne: "list_all (\<lambda>e. \<not> exits e) [Idle, Keyboard (CHR ''w'') 0 0, Idle]" by simp
  then obtain s where r: "run [Idle, Keyboard (CHR ''w'') 0 0, Idle] s0 = Inr s"
    using run_defined [OF main_consistent [OF m]] by blast
  have nr: "list_all (\<lambda>e. \<not> rotates e) [Idle, Keyboard (CHR ''w'') 0 0, Idle]" by simp
  from idle_wraps_once [of s example_draws s0 "[Idle, Keyboard (CHR ''w'') 0 0, Idle]"] m r nr
  have "0 \<le> viewAngle s \<and> viewAngle s \<le> 360
     \<and> 0 < viewAngle (idle s) \<and> viewAngle (idle s) \<le> 360"
    by blast
  with m r show ?thesis by blast
qed

section \<open>Binary32: rounding\<close>

lemma pow2_pos [simp]: "0 < pow2 k"
  by (simp add: pow2_def)

lemma pow2_nonneg [simp]: "0 \<le> pow2 k"
  by (simp add: pow2_def)

lemma pow2_add: "pow2 (j + k) = pow2 j * pow2 k"
  by (simp add: pow2_def powr_add)

lemma pow2_diff: "pow2 (j - k) = pow2 j / pow2 k"
  by (simp add: pow2_def powr_diff)

lemma pow2_0 [simp]: "pow2 0 = 1"
  by (simp add: pow2_def)

lemma pow2_mono: "j \<le> k \<Longrightarrow> pow2 j \<le> pow2 k"
  by (simp add: pow2_def)

lemma pow2_less_iff [simp]: "pow2 j < pow2 k \<longleftrightarrow> j < k"
  by (simp add: pow2_def)

lemma pow2_le_iff [simp]: "pow2 j \<le> pow2 k \<longleftrightarrow> j \<le> k"
  by (simp add: pow2_def)

lemma pow2_nat: "0 \<le> k \<Longrightarrow> pow2 k = 2 ^ nat k"
  by (simp add: pow2_def powr_int)

lemma pow2_neg: "k < 0 \<Longrightarrow> pow2 k = 1 / 2 ^ nat (- k)"
  by (simp add: pow2_def powr_int)

lemma pow2_numeral [simp]: "pow2 (numeral n) = 2 ^ numeral n"
  by (simp add: pow2_nat)

lemma pow2_neg_numeral [simp]: "pow2 (- numeral n) = 1 / 2 ^ numeral n"
  by (simp add: pow2_neg)

lemma pow2_1 [simp]: "pow2 1 = 2"
  by (simp add: pow2_def)

lemma pow2_int: "0 \<le> k \<Longrightarrow> pow2 k = of_int (2 ^ nat k)"
  by (simp add: pow2_nat)

lemma round_even_bounds: "\<lfloor>y\<rfloor> \<le> round_even y \<and> round_even y \<le> \<lfloor>y\<rfloor> + 1"
  by (simp add: round_even_def Let_def)

lemma round_even_of_int [simp]: "round_even (of_int n) = n"
  by (simp add: round_even_def)

lemma round_even_mono:
  assumes "x \<le> y"
  shows "round_even x \<le> round_even y"
proof (cases "\<lfloor>x\<rfloor> = \<lfloor>y\<rfloor>")
  case True
  with assms have "x - of_int \<lfloor>x\<rfloor> \<le> y - of_int \<lfloor>y\<rfloor>" by simp
  with True show ?thesis
    by (auto simp add: round_even_def Let_def)
next
  case False
  with assms have "\<lfloor>x\<rfloor> < \<lfloor>y\<rfloor>"
    using floor_mono [of x y] by linarith
  with round_even_bounds [of x] round_even_bounds [of y] show ?thesis by linarith
qed

lemma round_even_minus: "round_even (- y) = - round_even y"
proof (cases "y = of_int \<lfloor>y\<rfloor>")
  case True
  then obtain n where "y = of_int n" ..
  then have "- y = of_int (- n)" by simp
  then show ?thesis unfolding \<open>y = of_int n\<close> by (simp only: round_even_of_int)
next
  case False
  have fl: "\<lfloor>- y\<rfloor> = - \<lfloor>y\<rfloor> - 1"
    using False by (simp add: floor_minus ceiling_altdef)
  define f where "f = \<lfloor>y\<rfloor>"
  define d where "d = y - of_int f"
  have d: "0 < d" "d < 1"
    using False unfolding d_def f_def by linarith+
  have dm: "- y - of_int (- f - 1) = 1 - d" by (simp add: d_def)
  show ?thesis
    unfolding round_even_def Let_def fl f_def [symmetric] dm d_def [symmetric]
    using d by auto
qed

lemma round_even_nonneg: "0 \<le> y \<Longrightarrow> 0 \<le> round_even y"
  using round_even_mono [of 0 y] round_even_of_int [of 0] by simp

lemma round_even_close: "\<bar>of_int (round_even y) - y\<bar> \<le> 1 / 2"
  unfolding round_even_def Let_def by (auto; linarith)

lemma expo_minus [simp]: "expo (- x) = expo x"
  by (simp add: expo_def)

lemma expo_abs [simp]: "expo \<bar>x\<bar> = expo x"
  by (simp add: expo_def)

lemma expo_ge: "- 126 \<le> expo x"
  by (simp add: expo_def)

lemma floor_log2_bounds:
  assumes "0 < x"
  shows "pow2 \<lfloor>log 2 x\<rfloor> \<le> x \<and> x < pow2 (\<lfloor>log 2 x\<rfloor> + 1)"
  using floor_log_eq_powr_iff [of x 2 "\<lfloor>log 2 x\<rfloor>"] assms
  by (simp add: pow2_def)

lemma floor_log2_eqI:
  assumes "pow2 e \<le> x" and "x < pow2 (e + 1)"
  shows "\<lfloor>log 2 x\<rfloor> = e"
proof -
  have "0 < x" using assms(1) pow2_pos [of e] by linarith
  then show ?thesis
    using floor_log_eq_powr_iff [of x 2 e] assms by (simp add: pow2_def)
qed

lemma expo_eqI:
  assumes "pow2 e \<le> \<bar>x\<bar>" and "\<bar>x\<bar> < pow2 (e + 1)" and "- 126 \<le> e"
  shows "expo x = e"
proof -
  have "0 < \<bar>x\<bar>" using assms(1) pow2_pos [of e] by linarith
  then have "x \<noteq> 0" by auto
  with floor_log2_eqI [OF assms(1,2)] assms(3) show ?thesis
    by (simp add: expo_def)
qed

lemma expo_subnormal:
  assumes "\<bar>x\<bar> < pow2 (- 126)"
  shows "expo x = - 126"
proof (cases "x = 0")
  case True
  then show ?thesis by (simp add: expo_def)
next
  case False
  then have pos: "0 < \<bar>x\<bar>" by simp
  have "\<lfloor>log 2 \<bar>x\<bar>\<rfloor> < - 126"
  proof (rule ccontr)
    assume "\<not> \<lfloor>log 2 \<bar>x\<bar>\<rfloor> < - 126"
    then have "pow2 (- 126) \<le> pow2 \<lfloor>log 2 \<bar>x\<bar>\<rfloor>" by (simp del: pow2_neg_numeral)
    with floor_log2_bounds [OF pos] assms show False by linarith
  qed
  with False show ?thesis by (simp add: expo_def)
qed

lemma expo_upper: "\<bar>x\<bar> < pow2 (expo x + 1)"
proof (cases "x = 0")
  case True
  then show ?thesis by simp
next
  case False
  then have pos: "0 < \<bar>x\<bar>" by simp
  have "pow2 (\<lfloor>log 2 \<bar>x\<bar>\<rfloor> + 1) \<le> pow2 (expo x + 1)"
    using False by (simp add: expo_def del: pow2_neg_numeral)
  with floor_log2_bounds [OF pos] show ?thesis by linarith
qed

lemma expo_lower:
  assumes "pow2 (- 126) \<le> \<bar>x\<bar>"
  shows "pow2 (expo x) \<le> \<bar>x\<bar>"
proof -
  have pos: "0 < \<bar>x\<bar>" using assms pow2_pos [of "- 126"] by linarith
  then have nz: "x \<noteq> 0" by auto
  show ?thesis
  proof (cases "- 126 \<le> \<lfloor>log 2 \<bar>x\<bar>\<rfloor>")
    case True
    with nz have "expo x = \<lfloor>log 2 \<bar>x\<bar>\<rfloor>" by (simp add: expo_def)
    with floor_log2_bounds [OF pos] show ?thesis by simp
  next
    case False
    with nz have "expo x = - 126" by (simp add: expo_def)
    with assms show ?thesis by simp
  qed
qed

lemma expo_mono:
  assumes "\<bar>x\<bar> \<le> \<bar>y\<bar>"
  shows "expo x \<le> expo y"
proof (cases "x = 0")
  case True
  then show ?thesis using expo_ge [of y] by (simp add: expo_def)
next
  case False
  with assms have "y \<noteq> 0" by auto
  from False assms have "log 2 \<bar>x\<bar> \<le> log 2 \<bar>y\<bar>" by simp
  then have "\<lfloor>log 2 \<bar>x\<bar>\<rfloor> \<le> \<lfloor>log 2 \<bar>y\<bar>\<rfloor>" by (rule floor_mono)
  with False \<open>y \<noteq> 0\<close> show ?thesis by (simp add: expo_def)
qed

lemma ulp_pos [simp]: "0 < ulp x"
  by (simp add: ulp_def del: pow2_neg_numeral)

lemma ulp_minus [simp]: "ulp (- x) = ulp x"
  by (simp add: ulp_def)

lemma rnd_0 [simp]: "rnd 0 = 0"
  using round_even_of_int [of 0] by (simp add: rnd_def)

lemma rnd_minus: "rnd (- x) = - rnd x"
  by (simp add: rnd_def round_even_minus)

lemma rnd_nonneg: "0 \<le> x \<Longrightarrow> 0 \<le> rnd x"
  unfolding rnd_def using round_even_nonneg [of "x / ulp x"] ulp_pos [of x]
  by (simp add: less_imp_le)

lemma rnd_upper:
  assumes "0 \<le> x"
  shows "rnd x \<le> pow2 (expo x + 1)"
proof -
  have "x < pow2 (expo x + 1)" using expo_upper [of x] assms by simp
  also have "pow2 (expo x + 1) = pow2 24 * ulp x"
    unfolding ulp_def pow2_add [symmetric] by (rule arg_cong [of _ _ pow2]) simp
  finally have "x / ulp x < pow2 24" by (simp add: pos_divide_less_eq)
  then have "x / ulp x \<le> of_int (2 ^ 24)" by simp
  then have "round_even (x / ulp x) \<le> round_even (of_int (2 ^ 24))"
    by (intro round_even_mono)
  then have "round_even (x / ulp x) \<le> 2 ^ 24" by (simp only: round_even_of_int)
  then have "of_int (round_even (x / ulp x)) \<le> (of_int (2 ^ 24) :: real)"
    by (simp only: of_int_le_iff)
  then have "rnd x \<le> of_int (2 ^ 24) * ulp x"
    unfolding rnd_def by (intro mult_right_mono) (simp_all add: less_imp_le)
  also have "of_int (2 ^ 24) * ulp x = pow2 24 * ulp x" by simp
  also have "\<dots> = pow2 (expo x + 1)"
    unfolding ulp_def pow2_add [symmetric] by (rule arg_cong [of _ _ pow2]) simp
  finally show ?thesis .
qed

lemma rnd_lower:
  assumes "pow2 (- 126) \<le> x"
  shows "pow2 (expo x) \<le> rnd x"
proof -
  have x: "0 \<le> x" using assms pow2_pos [of "- 126"] by linarith
  have e: "pow2 (expo x) = pow2 23 * ulp x"
    unfolding ulp_def pow2_add [symmetric] by (rule arg_cong [of _ _ pow2]) simp
  have "pow2 (expo x) \<le> x" using expo_lower [of x] assms x by simp
  then have "pow2 23 \<le> x / ulp x" unfolding e by (simp add: pos_le_divide_eq)
  then have "of_int (2 ^ 23) \<le> x / ulp x" by simp
  then have "round_even (of_int (2 ^ 23)) \<le> round_even (x / ulp x)"
    by (intro round_even_mono)
  then have "2 ^ 23 \<le> round_even (x / ulp x)" by (simp only: round_even_of_int)
  then have "(of_int (2 ^ 23) :: real) \<le> of_int (round_even (x / ulp x))"
    by (simp only: of_int_le_iff)
  then have "of_int (2 ^ 23) * ulp x \<le> rnd x"
    unfolding rnd_def by (intro mult_right_mono) (simp_all add: less_imp_le)
  then show ?thesis unfolding e by simp
qed

lemma rnd_mono_nonneg:
  assumes "0 \<le> x" and "x \<le> y"
  shows "rnd x \<le> rnd y"
proof -
  have le: "expo x \<le> expo y" using assms by (intro expo_mono) simp
  show ?thesis
  proof (cases "expo x = expo y")
    case True
    then have u: "ulp x = ulp y" by (simp add: ulp_def)
    have "x / ulp y \<le> y / ulp y" using assms(2) by (simp add: divide_right_mono less_imp_le)
    then have "round_even (x / ulp y) \<le> round_even (y / ulp y)" by (rule round_even_mono)
    then show ?thesis
      unfolding rnd_def u by (intro mult_right_mono) (simp_all add: less_imp_le)
  next
    case False
    with le have lt: "expo x + 1 \<le> expo y" by simp
    with expo_ge [of x] have "- 126 < expo y" by simp
    have "pow2 (- 126) \<le> y"
    proof (rule ccontr)
      assume "\<not> pow2 (- 126) \<le> y"
      with assms have "\<bar>y\<bar> < pow2 (- 126)" by simp
      then have "expo y = - 126" by (rule expo_subnormal)
      with \<open>- 126 < expo y\<close> show False by simp
    qed
    then have "pow2 (expo y) \<le> rnd y" by (rule rnd_lower)
    moreover have "rnd x \<le> pow2 (expo x + 1)" using assms(1) by (rule rnd_upper)
    moreover have "pow2 (expo x + 1) \<le> pow2 (expo y)" using lt by (rule pow2_mono)
    ultimately show ?thesis by linarith
  qed
qed

lemma rnd_mono:
  assumes "x \<le> y"
  shows "rnd x \<le> rnd y"
proof -
  consider (a) "0 \<le> x" | (b) "y \<le> 0" | (c) "x < 0" "0 < y" using assms by linarith
  then show ?thesis
  proof cases
    case a
    then show ?thesis using assms by (rule rnd_mono_nonneg)
  next
    case b
    then have "rnd (- y) \<le> rnd (- x)" using assms by (intro rnd_mono_nonneg) simp_all
    then show ?thesis by (simp add: rnd_minus)
  next
    case c
    have "0 \<le> rnd (- x)" using c by (intro rnd_nonneg) simp
    moreover have "0 \<le> rnd y" using c by (intro rnd_nonneg) simp
    ultimately show ?thesis by (simp add: rnd_minus)
  qed
qed

lemma rnd_eval:
  assumes "pow2 e \<le> \<bar>x\<bar>" and "\<bar>x\<bar> < pow2 (e + 1)" and "- 126 \<le> e"
  shows "rnd x = of_int (round_even (x / pow2 (e - 23))) * pow2 (e - 23)"
  unfolding rnd_def ulp_def expo_eqI [OF assms] by (rule refl)

lemma rnd_eval_subnormal:
  assumes "\<bar>x\<bar> < pow2 (- 126)"
  shows "rnd x = of_int (round_even (x / pow2 (- 149))) * pow2 (- 149)"
  unfolding rnd_def ulp_def expo_subnormal [OF assms] by simp

lemma rnd_exact:
  assumes "\<bar>m\<bar> < 2 ^ 24" and "- 149 \<le> k"
  shows "rnd (of_int m * pow2 k) = of_int m * pow2 k"
proof -
  define x where "x = of_int m * pow2 k"
  define e where "e = expo x"
  have le: "e \<le> k + 23"
  proof (cases "pow2 (- 126) \<le> \<bar>x\<bar>")
    case True
    then have "pow2 e \<le> \<bar>x\<bar>" unfolding e_def by (rule expo_lower)
    also have "\<bar>x\<bar> = of_int \<bar>m\<bar> * pow2 k" by (simp add: x_def abs_mult)
    also have "\<dots> < of_int (2 ^ 24) * pow2 k"
      using assms(1) by (intro mult_strict_right_mono) (simp_all only: of_int_less_iff pow2_pos)
    also have "\<dots> = pow2 (24 + k)" by (simp add: pow2_add)
    finally show ?thesis by simp
  next
    case False
    then have "e = - 126" unfolding e_def by (intro expo_subnormal) simp
    with assms(2) show ?thesis by simp
  qed
  define j where "j = nat (k - e + 23)"
  have j: "k = (e - 23) + int j" using le by (simp add: j_def)
  have "x / ulp x = of_int m * (pow2 k / pow2 (e - 23))"
    by (simp add: x_def ulp_def e_def)
  also have "pow2 k / pow2 (e - 23) = pow2 (int j)"
    unfolding pow2_diff [symmetric] by (rule arg_cong [of _ _ pow2]) (simp add: j)
  also have "pow2 (int j) = of_int (2 ^ j)" by (simp add: pow2_nat)
  finally have q: "x / ulp x = of_int (m * 2 ^ j)" by simp
  have "rnd x = (x / ulp x) * ulp x"
    unfolding rnd_def q by (simp only: round_even_of_int)
  moreover have "ulp x \<noteq> 0" by (simp add: ulp_def pow2_def)
  ultimately show ?thesis unfolding x_def [symmetric] by simp
qed

lemma pow2_minus_1 [simp]: "pow2 (- 1) = 1 / 2"
  using pow2_neg [of "- 1"] by simp

lemma rnd_pow2: "- 149 \<le> k \<Longrightarrow> rnd (pow2 k) = pow2 k"
  using rnd_exact [of 1 k] by simp

lemma rnd_1 [simp]: "rnd 1 = 1"
  using rnd_pow2 [of 0] by simp

section \<open>Binary32: values and overflow\<close>

lemma max_float_value: "max_float = 340282346638528859811704183484516925440"
  by (simp add: max_float_def)

lemma rnd_max_float: "rnd max_float = max_float"
  unfolding max_float_def using rnd_exact [of 16777215 104] by simp

lemma finish_Fin:
  assumes "\<bar>y\<bar> \<le> max_float"
  shows "finish y = Fin (rnd y)"
proof -
  from assms have "y \<le> max_float" and "- max_float \<le> y" by linarith+
  then have "rnd y \<le> rnd max_float" and "rnd (- max_float) \<le> rnd y"
    by (simp_all only: rnd_mono)
  then have "rnd y \<le> max_float" and "- max_float \<le> rnd y"
    by (simp_all add: rnd_minus rnd_max_float)
  then show ?thesis by (simp add: finish_def Let_def)
qed

lemma finish_cases: "finish y = Fin (rnd y) \<or> finish y = PInf \<or> finish y = NInf"
  by (simp add: finish_def Let_def)

lemma finish_FinD: "finish y = Fin r \<Longrightarrow> r = rnd y \<and> \<bar>r\<bar> \<le> max_float"
  by (auto simp add: finish_def Let_def split: if_splits)

lemma finish_not_NaN [simp]: "finish y \<noteq> NaN"
  by (simp add: finish_def Let_def)

section \<open>Binary32: the spectrum mapper\<close>

lemma rnd_evalI:
  assumes "pow2 e \<le> \<bar>x\<bar>" and "\<bar>x\<bar> < pow2 (e + 1)" and "- 126 \<le> e"
    and "round_even (x / pow2 (e - 23)) = m" and "r = of_int m * pow2 (e - 23)"
  shows "rnd x = r"
  unfolding rnd_eval [OF assms(1-3)] assms(4,5) by (rule refl)

lemma rnd_dec_04: "rnd (2 / 5) = 13421773 / 33554432"
  by (rule rnd_evalI [of "- 2" _ "13421773"]) (simp_all add: round_even_def)

lemma rnd_dec_055: "rnd (11 / 20) = 9227469 / 16777216"
  by (rule rnd_evalI [of "- 1" _ "9227469"]) (simp_all add: round_even_def)

lemma rnd_dec_06: "rnd (3 / 5) = 5033165 / 8388608"
  by (rule rnd_evalI [of "- 1" _ "10066330"]) (simp_all add: round_even_def)

lemma rnd_dec_015: "rnd (3 / 20) = 5033165 / 33554432"
  by (rule rnd_evalI [of "- 3" _ "10066330"]) (simp_all add: round_even_def)

lemma rnd_dec_005: "rnd (1 / 20) = 13421773 / 268435456"
  by (rule rnd_evalI [of "- 5" _ "13421773"]) (simp_all add: round_even_def)

lemma rnd_c015: "rnd (5033165 / 33554432) = 5033165 / 33554432"
  by (rule rnd_evalI [of "- 3" _ "10066330"]) (simp_all add: round_even_def)

lemma rnd_diff_06_055: "rnd (838861 / 16777216) = 838861 / 16777216"
  by (rule rnd_evalI [of "- 5" _ "13421776"]) (simp_all add: round_even_def)

lemma rnd_quot_06: "rnd (13421776 / 13421773) = 4194305 / 4194304"
  by (rule rnd_evalI [of "0" _ "8388610"]) (simp_all add: round_even_def)

lemma rnd_diff_075_06: "rnd (1258291 / 8388608) = 1258291 / 8388608"
  by (rule rnd_evalI [of "- 3" _ "10066328"]) (simp_all add: round_even_def)

lemma rnd_quot_075: "rnd (5033164 / 5033165) = 16777213 / 16777216"
  by (rule rnd_evalI [of "- 1" _ "16777213"]) (simp_all add: round_even_def)

lemma rnd_compl_075: "rnd (3 / 16777216) = 3 / 16777216"
  by (rule rnd_evalI [of "- 23" _ "12582912"]) (simp_all add: round_even_def)

lemma rnd_half: "rnd (1 / 2) = 1 / 2"
  by (rule rnd_evalI [of "- 1" _ "8388608"]) (simp_all add: round_even_def)

lemma rnd_quarter: "rnd (1 / 4) = 1 / 4"
  by (rule rnd_evalI [of "- 2" _ "8388608"]) (simp_all add: round_even_def)

lemma rnd_three_quarters: "rnd (3 / 4) = 3 / 4"
  by (rule rnd_evalI [of "- 1" _ "12582912"]) (simp_all add: round_even_def)

lemma finish_small: "\<bar>y\<bar> \<le> 8 \<Longrightarrow> finish y = Fin (rnd y)"
  by (rule finish_Fin) (simp add: max_float_value)

lemma lit_0 [simp]: "lit 0 = Fin 0"
  by (simp add: lit_def finish_small)

lemma lit_1 [simp]: "lit 1 = Fin 1"
  by (simp add: lit_def finish_small)

lemma lit_05: "lit 0.5 = Fin (1 / 2)"
  by (simp add: lit_def finish_small rnd_half)

lemma lit_025: "lit 0.25 = Fin (1 / 4)"
  by (simp add: lit_def finish_small rnd_quarter)

lemma lit_075: "lit 0.75 = Fin (3 / 4)"
  by (simp add: lit_def finish_small rnd_three_quarters)

lemma lit_04: "lit 0.4 = Fin (13421773 / 33554432)"
  by (simp add: lit_def finish_small rnd_dec_04)

lemma lit_055: "lit 0.55 = Fin (9227469 / 16777216)"
  by (simp add: lit_def finish_small rnd_dec_055)

lemma lit_06: "lit 0.6 = Fin (5033165 / 8388608)"
  by (simp add: lit_def finish_small rnd_dec_06)

lemma lit_015: "lit 0.15 = Fin (5033165 / 33554432)"
  by (simp add: lit_def finish_small rnd_dec_015)

lemma lit_005: "lit 0.05 = Fin (13421773 / 268435456)"
  by (simp add: lit_def finish_small rnd_dec_005)

lemmas lit_values = lit_0 lit_1 lit_05 lit_025 lit_075 lit_04 lit_055 lit_06 lit_015 lit_005

lemmas segment32_defs =
  violetToBlue32_def blueToCyan32_def cyanToGreen32_def greenToYellow32_def yellowToRed32_def
  red32_def

lemma fsub_Fin [simp]: "fsub (Fin x) (Fin y) = finish (x - y)"
  by (simp add: fsub_def)

lemma quot_bound:
  assumes "lo \<le> x" and "x \<le> hi" and "rnd (hi - lo) = d" and "0 < k" and "rnd (d / k) = q"
  shows "0 \<le> rnd (rnd (x - lo) / k) \<and> rnd (rnd (x - lo) / k) \<le> q"
proof -
  have t0: "0 \<le> rnd (x - lo)" using assms(1) by (intro rnd_nonneg) simp
  have "rnd (x - lo) \<le> rnd (hi - lo)" using assms(2) by (intro rnd_mono) simp
  then have t1: "rnd (x - lo) \<le> d" by (simp only: assms(3))
  from t0 assms(4) have "0 \<le> rnd (x - lo) / k" by simp
  then have lo: "0 \<le> rnd (rnd (x - lo) / k)" by (rule rnd_nonneg)
  from t1 assms(4) have "rnd (x - lo) / k \<le> d / k" by (simp add: divide_right_mono)
  then have "rnd (rnd (x - lo) / k) \<le> rnd (d / k)" by (rule rnd_mono)
  with lo show ?thesis unfolding assms(5) by simp
qed

lemma compl_bound:
  assumes "0 \<le> q" and "q \<le> 1"
  shows "0 \<le> rnd (1 - q) \<and> rnd (1 - q) \<le> 1"
proof -
  have "0 \<le> rnd (1 - q)" using assms(2) by (intro rnd_nonneg) simp
  moreover have "rnd (1 - q) \<le> rnd 1" using assms(1) by (intro rnd_mono) simp
  ultimately show ?thesis by simp
qed

lemma diff_small:
  assumes "0 \<le> lo" and "lo \<le> x" and "x \<le> 1"
  shows "\<bar>x - lo\<bar> \<le> 8 \<and> 0 \<le> rnd (x - lo) \<and> rnd (x - lo) \<le> 1"
proof -
  have "0 \<le> rnd (x - lo)" using assms by (intro rnd_nonneg) simp
  moreover have "rnd (x - lo) \<le> rnd 1" using assms by (intro rnd_mono) simp
  ultimately show ?thesis using assms by simp
qed

lemma violet_range:
  assumes "0 \<le> x" and "x \<le> 1 / 4"
  shows "\<exists>r g b. violetToBlue32 (Fin x) = (Fin r, Fin g, Fin b)
     \<and> 0 \<le> r \<and> r \<le> 1 \<and> 0 \<le> g \<and> g \<le> 1 \<and> 0 \<le> b \<and> b \<le> 1"
proof -
  define t where "t = rnd (x / (1 / 4))"
  have "0 \<le> x / (1 / 4)" and "x / (1 / 4) \<le> 1" using assms by simp_all
  then have t: "0 \<le> t" "t \<le> 1"
    unfolding t_def using rnd_nonneg [of "x / (1 / 4)"] rnd_mono [of "x / (1 / 4)" 1] by simp_all
  have q: "fdiv (Fin x) (Fin (1 / 4)) = Fin t"
    unfolding t_def using assms by (simp add: finish_small)
  define u where "u = rnd (1 / 2 * t)"
  have u: "0 \<le> u" "u \<le> 1 / 2"
    unfolding u_def using t rnd_nonneg [of "1 / 2 * t"] rnd_mono [of "1 / 2 * t" "1 / 2"]
    by (simp_all add: rnd_half)
  have m: "fmul (Fin (1 / 2)) (Fin t) = Fin u"
    unfolding u_def using t by (simp add: finish_small)
  define b where "b = rnd (1 / 2 + u)"
  have b: "0 \<le> b" "b \<le> 1"
    unfolding b_def using u rnd_nonneg [of "1 / 2 + u"] rnd_mono [of "1 / 2 + u" 1]
    by simp_all
  have a: "fadd (Fin (1 / 2)) (Fin u) = Fin b"
    unfolding b_def using u by (simp add: finish_small)
  have "violetToBlue32 (Fin x) = (Fin u, Fin 0, Fin b)"
    unfolding violetToBlue32_def by (simp only: lit_values q m a)
  with u b show ?thesis by auto
qed

lemma blue_range:
  assumes "1 / 4 \<le> x" and "x \<le> 13421773 / 33554432"
  shows "\<exists>r g b. blueToCyan32 (Fin x) = (Fin r, Fin g, Fin b)
     \<and> 0 \<le> r \<and> r \<le> 1 \<and> 0 \<le> g \<and> g \<le> 1 \<and> 0 \<le> b \<and> b \<le> 1"
proof -
  define t where "t = rnd (x - 1 / 4)"
  define g where "g = rnd (t / (5033165 / 33554432))"
  have d: "\<bar>x - 1 / 4\<bar> \<le> 8 \<and> 0 \<le> t \<and> t \<le> 1"
    unfolding t_def using assms by (intro diff_small) simp_all
  have g: "0 \<le> g \<and> g \<le> 1"
    unfolding g_def t_def
    by (rule quot_bound [OF assms(1,2), of "5033165 / 33554432"]) (simp_all add: rnd_c015)
  have "fsub (Fin x) (Fin (1 / 4)) = Fin t"
    unfolding t_def using d by (simp add: finish_small)
  moreover have "fdiv (Fin t) (Fin (5033165 / 33554432)) = Fin g"
    unfolding g_def using d by (simp add: finish_small)
  ultimately have "blueToCyan32 (Fin x) = (Fin 0, Fin g, Fin 1)"
    unfolding blueToCyan32_def by (simp only: lit_values)
  with g show ?thesis by auto
qed

lemma cyan_range:
  assumes "13421773 / 33554432 \<le> x" and "x \<le> 9227469 / 16777216"
  shows "\<exists>r g b. cyanToGreen32 (Fin x) = (Fin r, Fin g, Fin b)
     \<and> 0 \<le> r \<and> r \<le> 1 \<and> 0 \<le> g \<and> g \<le> 1 \<and> 0 \<le> b \<and> b \<le> 1"
proof -
  define t where "t = rnd (x - 13421773 / 33554432)"
  define q where "q = rnd (t / (5033165 / 33554432))"
  define b where "b = rnd (1 - q)"
  have d: "\<bar>x - 13421773 / 33554432\<bar> \<le> 8 \<and> 0 \<le> t \<and> t \<le> 1"
    unfolding t_def using assms by (intro diff_small) simp_all
  have q: "0 \<le> q \<and> q \<le> 1"
    unfolding q_def t_def
    by (rule quot_bound [OF assms(1,2), of "5033165 / 33554432"]) (simp_all add: rnd_c015)
  then have b: "0 \<le> b \<and> b \<le> 1"
    unfolding b_def by (intro compl_bound) simp_all
  have "fsub (Fin x) (Fin (13421773 / 33554432)) = Fin t"
    unfolding t_def using d by (simp add: finish_small)
  moreover have "fdiv (Fin t) (Fin (5033165 / 33554432)) = Fin q"
    unfolding q_def using d by (simp add: finish_small)
  moreover have "fsub (Fin 1) (Fin q) = Fin b"
    unfolding b_def using q by (simp add: finish_small)
  ultimately have "cyanToGreen32 (Fin x) = (Fin 0, Fin 1, Fin b)"
    unfolding cyanToGreen32_def by (simp only: lit_values)
  with b show ?thesis by auto
qed

lemma green_range:
  assumes "9227469 / 16777216 \<le> x" and "x \<le> 5033165 / 8388608"
  shows "\<exists>r g b. greenToYellow32 (Fin x) = (Fin r, Fin g, Fin b)
     \<and> 0 \<le> r \<and> r \<le> 4194305 / 4194304 \<and> 0 \<le> g \<and> g \<le> 1 \<and> 0 \<le> b \<and> b \<le> 1"
proof -
  define t where "t = rnd (x - 9227469 / 16777216)"
  define r where "r = rnd (t / (13421773 / 268435456))"
  have d: "\<bar>x - 9227469 / 16777216\<bar> \<le> 8 \<and> 0 \<le> t \<and> t \<le> 1"
    unfolding t_def using assms by (intro diff_small) simp_all
  have "rnd (5033165 / 8388608 - 9227469 / 16777216) = 838861 / 16777216"
    using rnd_diff_06_055 by simp
  moreover have "rnd (838861 / 16777216 / (13421773 / 268435456)) = 4194305 / 4194304"
    using rnd_quot_06 by simp
  ultimately have r: "0 \<le> r \<and> r \<le> 4194305 / 4194304"
    unfolding r_def t_def
    by (intro quot_bound [OF assms(1,2), of "838861 / 16777216"]) simp_all
  have t1: "t \<le> 838861 / 16777216"
    unfolding t_def using rnd_mono [of "x - 9227469 / 16777216" "838861 / 16777216"] assms
      rnd_diff_06_055 by simp
  have "fsub (Fin x) (Fin (9227469 / 16777216)) = Fin t"
    unfolding t_def using d by (simp add: finish_small)
  moreover have "fdiv (Fin t) (Fin (13421773 / 268435456)) = Fin r"
    unfolding r_def using d t1 by (simp add: finish_small)
  ultimately have "greenToYellow32 (Fin x) = (Fin r, Fin 1, Fin 0)"
    unfolding greenToYellow32_def by (simp only: lit_values)
  with r show ?thesis by auto
qed

lemma yellow_range:
  assumes "5033165 / 8388608 \<le> x" and "x \<le> 3 / 4"
  shows "\<exists>r g b. yellowToRed32 (Fin x) = (Fin r, Fin g, Fin b)
     \<and> 0 \<le> r \<and> r \<le> 1 \<and> 0 \<le> g \<and> g \<le> 1 \<and> 0 \<le> b \<and> b \<le> 1"
proof -
  define t where "t = rnd (x - 5033165 / 8388608)"
  define q where "q = rnd (t / (5033165 / 33554432))"
  define g where "g = rnd (1 - q)"
  have d: "\<bar>x - 5033165 / 8388608\<bar> \<le> 8 \<and> 0 \<le> t \<and> t \<le> 1"
    unfolding t_def using assms by (intro diff_small) simp_all
  have "rnd (3 / 4 - 5033165 / 8388608) = 1258291 / 8388608"
    using rnd_diff_075_06 by simp
  moreover have "rnd (1258291 / 8388608 / (5033165 / 33554432)) = 16777213 / 16777216"
    using rnd_quot_075 by simp
  ultimately have "0 \<le> q \<and> q \<le> 16777213 / 16777216"
    unfolding q_def t_def
    by (intro quot_bound [OF assms(1,2), of "1258291 / 8388608"]) simp_all
  then have q: "0 \<le> q \<and> q \<le> 1" by simp
  then have g: "0 \<le> g \<and> g \<le> 1"
    unfolding g_def by (intro compl_bound) simp_all
  have "fsub (Fin x) (Fin (5033165 / 8388608)) = Fin t"
    unfolding t_def using d by (simp add: finish_small)
  moreover have "fdiv (Fin t) (Fin (5033165 / 33554432)) = Fin q"
    unfolding q_def using d by (simp add: finish_small)
  moreover have "fsub (Fin 1) (Fin q) = Fin g"
    unfolding g_def using q by (simp add: finish_small)
  ultimately have "yellowToRed32 (Fin x) = (Fin 1, Fin g, Fin 0)"
    unfolding yellowToRed32_def by (simp only: lit_values)
  with g show ?thesis by auto
qed

lemma red_range:
  "\<exists>r g b. red32 w = (Fin r, Fin g, Fin b)
     \<and> 0 \<le> r \<and> r \<le> 1 \<and> 0 \<le> g \<and> g \<le> 1 \<and> 0 \<le> b \<and> b \<le> 1"
  by (simp add: red32_def)

lemma wavelengthToRGB32_table: "wavelengthToRGB32 (Fin x) = spec_table32 (Fin x)"
  unfolding wavelengthToRGB32_def spec_table32_def segment32_defs
  by (simp only: lit_values fle.simps flt.simps) auto

lemmas rnd_values = rnd_c015 rnd_diff_06_055 rnd_quot_06 rnd_diff_075_06 rnd_quot_075
  rnd_compl_075 rnd_half rnd_quarter rnd_three_quarters

text \<open>
  Claim C3, as stated: for every \<open>w\<close> in \<open>[0, 1]\<close> each channel of \<open>wavelengthToRGB w\<close> lies in
  \<open>[0, 1]\<close>. At \<open>w = 0.6f\<close>, the binary32 number nearest to 0.6, the red channel is
  \<open>(0.6f - 0.55f) / 0.05f\<close>, which rounds to \<open>1 + 2 ^ -22\<close>.
\<close>

theorem red_above_one_counterexample:
  "wavelengthToRGB32 (lit 0.6) = (Fin (4194305 / 4194304), Fin 1, Fin 0)
   \<and> fle (lit 0) (lit 0.6) \<and> fle (lit 0.6) (lit 1)
   \<and> flt (Fin 1) (Fin (4194305 / 4194304))"
  unfolding wavelengthToRGB32_def segment32_defs
  by (simp only: lit_values) (simp add: finish_small rnd_values)

text \<open>
  Claim C3, amended: for every \<open>w\<close> in \<open>[0, 1]\<close>, \<open>wavelengthToRGB w\<close> is the value of the
  six-row table of section 4.1 evaluated in binary32 (rows split at 0.25, 0.4, 0.55, 0.6
  and 0.75, a boundary belonging to the row below it); the green and the blue channel lie
  in \<open>[0, 1]\<close>, and the red channel lies in \<open>[0, 1 + 2 ^ -22]\<close>, above 1 only in the
  green-to-yellow row. The theorem speaks of \<open>Fin x\<close> for every real \<open>x\<close> in \<open>[0, 1]\<close>, which
  covers every binary32 number of that range.
\<close>

theorem wavelengthToRGB32_range:
  assumes "0 \<le> x" and "x \<le> 1"
  shows "wavelengthToRGB32 (Fin x) = spec_table32 (Fin x)
     \<and> (\<exists>r g b. wavelengthToRGB32 (Fin x) = (Fin r, Fin g, Fin b)
          \<and> 0 \<le> r \<and> r \<le> 1 + 1 / 2 ^ 22 \<and> 0 \<le> g \<and> g \<le> 1 \<and> 0 \<le> b \<and> b \<le> 1
          \<and> (1 < r \<longrightarrow> flt (lit 0.55) (Fin x) \<and> fle (Fin x) (lit 0.6)))"
proof -
  have range: "\<exists>r g b. wavelengthToRGB32 (Fin x) = (Fin r, Fin g, Fin b)
          \<and> 0 \<le> r \<and> r \<le> 1 + 1 / 2 ^ 22 \<and> 0 \<le> g \<and> g \<le> 1 \<and> 0 \<le> b \<and> b \<le> 1
          \<and> (1 < r \<longrightarrow> flt (lit 0.55) (Fin x) \<and> fle (Fin x) (lit 0.6))"
  proof -
    consider (violet) "x \<le> 1 / 4"
      | (blue) "1 / 4 < x" "x \<le> 13421773 / 33554432"
      | (cyan) "13421773 / 33554432 < x" "x \<le> 9227469 / 16777216"
      | (green) "9227469 / 16777216 < x" "x \<le> 5033165 / 8388608"
      | (yellow) "5033165 / 8388608 < x" "x \<le> 3 / 4"
      | (red) "3 / 4 < x"
      by linarith
    then show ?thesis
    proof cases
      case violet
      then have w: "wavelengthToRGB32 (Fin x) = violetToBlue32 (Fin x)"
        unfolding wavelengthToRGB32_def by (simp only: lit_values) simp
      from violet_range [OF assms(1) violet] show ?thesis unfolding w by auto
    next
      case blue
      then have w: "wavelengthToRGB32 (Fin x) = blueToCyan32 (Fin x)"
        unfolding wavelengthToRGB32_def by (simp only: lit_values) simp
      from blue have "1 / 4 \<le> x" by simp
      from blue_range [OF this blue(2)] show ?thesis unfolding w by auto
    next
      case cyan
      then have w: "wavelengthToRGB32 (Fin x) = cyanToGreen32 (Fin x)"
        unfolding wavelengthToRGB32_def by (simp only: lit_values) simp
      from cyan have "13421773 / 33554432 \<le> x" by simp
      from cyan_range [OF this cyan(2)] show ?thesis unfolding w by auto
    next
      case green
      then have w: "wavelengthToRGB32 (Fin x) = greenToYellow32 (Fin x)"
        unfolding wavelengthToRGB32_def by (simp only: lit_values) simp
      from green have le: "9227469 / 16777216 \<le> x" by simp
      from green have in_seg: "flt (lit 0.55) (Fin x) \<and> fle (Fin x) (lit 0.6)"
        by (simp only: lit_values) simp
      from green_range [OF le green(2)] in_seg show ?thesis unfolding w by auto
    next
      case yellow
      then have w: "wavelengthToRGB32 (Fin x) = yellowToRed32 (Fin x)"
        unfolding wavelengthToRGB32_def by (simp only: lit_values) simp
      from yellow have "5033165 / 8388608 \<le> x" by simp
      from yellow_range [OF this yellow(2)] show ?thesis unfolding w by auto
    next
      case red
      then have w: "wavelengthToRGB32 (Fin x) = red32 (Fin x)"
        unfolding wavelengthToRGB32_def by (simp only: lit_values) simp
      from red_range [of "Fin x"] show ?thesis unfolding w by auto
    qed
  qed
  with wavelengthToRGB32_table [of x] show ?thesis by simp
qed

theorem wavelengthToRGB32_range_witness:
  "\<exists>r g b. wavelengthToRGB32 (Fin (5033165 / 8388608)) = (Fin r, Fin g, Fin b)
      \<and> 0 \<le> r \<and> r \<le> 1 + 1 / 2 ^ 22 \<and> 0 \<le> g \<and> g \<le> 1 \<and> 0 \<le> b \<and> b \<le> 1"
proof -
  have "(0::real) \<le> 5033165 / 8388608" and "(5033165 / 8388608 :: real) \<le> 1" by simp_all
  from wavelengthToRGB32_range [OF this] show ?thesis by blast
qed

text \<open>
  Claim C8, as stated: at each of the boundaries 0.25, 0.4, 0.55, 0.6 and 0.75 the formulas
  of the two neighbouring branches agree. At 0.25 they do not: the red channel drops from
  0.5 to 0. At \<open>0.6f\<close> and at 0.75 the two formulas differ as well, by the rounding of
  binary32.
\<close>

theorem boundaries32_counterexample:
  "violetToBlue32 (lit 0.25) = (Fin (1 / 2), Fin 0, Fin 1)
   \<and> blueToCyan32 (lit 0.25) = (Fin 0, Fin 0, Fin 1)
   \<and> violetToBlue32 (lit 0.25) \<noteq> blueToCyan32 (lit 0.25)
   \<and> greenToYellow32 (lit 0.6) \<noteq> yellowToRed32 (lit 0.6)
   \<and> yellowToRed32 (lit 0.75) \<noteq> red32 (lit 0.75)"
  unfolding segment32_defs
  by (simp only: lit_values) (simp add: finish_small rnd_values)

text \<open>
  Claim C8, amended: the formulas of the neighbouring branches agree at \<open>0.4f\<close> and at
  \<open>0.55f\<close>. At \<open>0.6f\<close> they yield \<open>(1 + 2 ^ -22, 1, 0)\<close> and \<open>(1, 1, 0)\<close>, and at 0.75 they
  yield \<open>(1, 3 * 2 ^ -24, 0)\<close> and \<open>(1, 0, 0)\<close>: equal up to the rounding of binary32. At
  0.25 the first branch yields \<open>(0.5, 0, 1)\<close> and the second \<open>(0, 0, 1)\<close>, and the function
  takes the value of the first.
\<close>

theorem boundaries32_agree_at_04_and_055:
  "blueToCyan32 (lit 0.4) = cyanToGreen32 (lit 0.4)
   \<and> cyanToGreen32 (lit 0.55) = greenToYellow32 (lit 0.55)
   \<and> greenToYellow32 (lit 0.6) = (Fin (1 + 1 / 2 ^ 22), Fin 1, Fin 0)
   \<and> yellowToRed32 (lit 0.6) = (Fin 1, Fin 1, Fin 0)
   \<and> yellowToRed32 (lit 0.75) = (Fin 1, Fin (3 / 2 ^ 24), Fin 0)
   \<and> red32 (lit 0.75) = (Fin 1, Fin 0, Fin 0)
   \<and> violetToBlue32 (lit 0.25) = (Fin (1 / 2), Fin 0, Fin 1)
   \<and> blueToCyan32 (lit 0.25) = (Fin 0, Fin 0, Fin 1)
   \<and> wavelengthToRGB32 (lit 0.25) = (Fin (1 / 2), Fin 0, Fin 1)"
  unfolding wavelengthToRGB32_def segment32_defs
  by (simp only: lit_values) (simp add: finish_small rnd_values)

section \<open>Binary32: the Doppler calculator\<close>

lemma rnd_dec_099: "rnd (99 / 100) = 4152361 / 4194304"
  by (rule rnd_evalI [of "- 1" _ "16609444"]) (simp_all add: round_even_def)

lemma lit_099: "lit 0.99 = Fin (4152361 / 4194304)"
  by (simp add: lit_def finish_small rnd_dec_099)

lemma rnd_grid_above_minus_one:
  assumes "- 1 < rnd y"
  shows "- 1 + 1 / 2 ^ 24 \<le> rnd y"
proof (cases "- (1 / 2) \<le> y")
  case True
  then have "rnd (- (1 / 2)) \<le> rnd y" by (rule rnd_mono)
  then show ?thesis by (simp add: rnd_minus rnd_half)
next
  case False
  have "- 1 < y"
  proof (rule ccontr)
    assume "\<not> - 1 < y"
    then have "rnd y \<le> rnd (- 1)" by (intro rnd_mono) simp
    with assms show False by (simp add: rnd_minus)
  qed
  with False have "pow2 (- 1) \<le> \<bar>y\<bar>" and "\<bar>y\<bar> < pow2 (- 1 + 1)" by simp_all
  from rnd_eval [OF this] have r: "rnd y = of_int (round_even (y / pow2 (- 24))) * pow2 (- 24)"
    by simp
  define k where "k = round_even (y / pow2 (- 24))"
  from r have rk: "rnd y = of_int k / 2 ^ 24" by (simp add: k_def)
  with assms have "(of_int (- 16777216) :: real) < of_int k" by (simp add: field_simps)
  then have "- 16777216 < k" by (simp only: of_int_less_iff)
  then have "- 16777215 \<le> k" by simp
  then have "(of_int (- 16777215) :: real) \<le> of_int k" by (simp only: of_int_le_iff)
  then show ?thesis unfolding rk by (simp add: field_simps)
qed

lemma rnd_grid_below_one:
  assumes "rnd y < 1"
  shows "rnd y \<le> 1 - 1 / 2 ^ 24"
proof -
  from assms have "- 1 < rnd (- y)" by (simp add: rnd_minus)
  from rnd_grid_above_minus_one [OF this] show ?thesis by (simp add: rnd_minus)
qed

lemma rnd_two_powers:
  "rnd 2 = 2" "rnd (1 / 2 ^ 24) = 1 / 2 ^ 24" "rnd (1 / 2 ^ 25) = 1 / 2 ^ 25"
  "rnd (2 ^ 25) = 2 ^ 25" "rnd (1 / 2 ^ 13) = 1 / 2 ^ 13"
  using rnd_pow2 [of 1] rnd_pow2 [of "- 24"] rnd_pow2 [of "- 25"] rnd_pow2 [of 25]
    rnd_pow2 [of "- 13"]
  by simp_all

lemma dopplerFactor32_pos:
  assumes "- 1 < r" and "r < 1" and "r = rnd y"
  shows "\<exists>s. dopplerFactor32 (Fin r) = Fin s \<and> 0 < s"
proof -
  from assms have lo: "- 1 + 1 / 2 ^ 24 \<le> r" and hi: "r \<le> 1 - 1 / 2 ^ 24"
    using rnd_grid_above_minus_one [of y] rnd_grid_below_one [of y] by simp_all
  define a where "a = rnd (1 + r)"
  define b where "b = rnd (1 - r)"
  define q where "q = rnd (a / b)"
  define s where "s = rnd (sqrt q)"
  have "rnd (1 / 2 ^ 24) \<le> rnd (1 + r)" and "rnd (1 + r) \<le> rnd 2"
    using lo hi by (intro rnd_mono; simp)+
  then have a: "1 / 2 ^ 24 \<le> a" "a \<le> 2"
    unfolding a_def by (simp_all only: rnd_two_powers)
  have "rnd (1 / 2 ^ 24) \<le> rnd (1 - r)" and "rnd (1 - r) \<le> rnd 2"
    using lo hi by (intro rnd_mono; simp)+
  then have b: "1 / 2 ^ 24 \<le> b" "b \<le> 2"
    unfolding b_def by (simp_all only: rnd_two_powers)
  have fa: "fadd (Fin 1) (Fin r) = Fin a"
    unfolding a_def using assms by (simp add: finish_small)
  have fb: "fsub (Fin 1) (Fin r) = Fin b"
    unfolding b_def using assms by (simp add: finish_small)
  have bpos: "0 < b" using b by simp
  have apos: "0 < a" using a by simp
  have "a / b \<le> 2 / (1 / 2 ^ 24)"
    using a b by (intro frac_le) simp_all
  then have qhi: "a / b \<le> 2 ^ 25" by simp
  have "(1 / 2 ^ 24) / 2 \<le> a / b"
    using a b by (intro frac_le) simp_all
  then have qlo: "1 / 2 ^ 25 \<le> a / b" by simp
  have "rnd (1 / 2 ^ 25) \<le> rnd (a / b)" using qlo by (rule rnd_mono)
  then have q: "1 / 2 ^ 25 \<le> q" unfolding q_def by (simp only: rnd_two_powers)
  have "\<bar>a / b\<bar> \<le> max_float"
    using qhi qlo by (simp add: max_float_value)
  then have fq: "fdiv (Fin a) (Fin b) = Fin q"
    unfolding q_def using bpos by (simp add: finish_Fin)
  have "(1 / 2 ^ 13)\<^sup>2 \<le> q" using q by (simp add: power2_eq_square)
  then have "sqrt ((1 / 2 ^ 13)\<^sup>2) \<le> sqrt q" by (simp only: real_sqrt_le_iff)
  then have "1 / 2 ^ 13 \<le> sqrt q" by simp
  then have "rnd (1 / 2 ^ 13) \<le> rnd (sqrt q)" by (rule rnd_mono)
  then have s: "1 / 2 ^ 13 \<le> s" unfolding s_def by (simp only: rnd_two_powers)
  have fs: "fsqrt (Fin q) = Fin s"
    unfolding s_def using q by simp
  have "dopplerFactor32 (Fin r) = Fin s"
    unfolding dopplerFactor32_def by (simp only: lit_values fa fb fq fs)
  moreover have "0 < s" using s by simp
  ultimately show ?thesis by blast
qed

lemma fdiv_one_grid:
  assumes "fdiv a (Fin 1) = Fin r"
  shows "\<exists>y. r = rnd y"
proof (cases a)
  case (Fin x)
  with assms have "finish x = Fin r" by simp
  then show ?thesis using finish_FinD by blast
qed (use assms in simp_all)

lemma rawBeta32_grid:
  assumes "rawBeta32 v ob = Fin r"
  shows "\<exists>y. r = rnd y"
  using assms unfolding rawBeta32_def Let_def SPEED_OF_LIGHT_def lit_1
  by (rule fdiv_one_grid)

lemma clampBeta32_cases:
  "clampBeta32 beta =
     (if fge beta (lit 1) then lit 0.99
      else if fle beta (fneg (lit 1)) then fneg (lit 0.99) else beta)"
  unfolding clampBeta32_def Let_def
  by (simp only: lit_values lit_099 fneg.simps fle.simps) simp

lemma clampBeta32_Fin:
  "clampBeta32 (Fin r) =
     (if 1 \<le> r then Fin (4152361 / 4194304)
      else if r \<le> - 1 then Fin (- (4152361 / 4194304)) else Fin r)"
  unfolding clampBeta32_cases fge_def
  by (simp only: lit_values lit_099 fneg.simps fle.simps)

lemma clampBeta32_special:
  "clampBeta32 PInf = Fin (4152361 / 4194304)"
  "clampBeta32 NInf = Fin (- (4152361 / 4194304))"
  "clampBeta32 NaN = NaN"
  unfolding clampBeta32_cases fge_def
  by (simp_all only: lit_values lit_099 fneg.simps fle.simps if_True if_False)

lemma clampBeta32_range:
  assumes "beta \<noteq> NaN"
  shows "flt (fneg (lit 1)) (clampBeta32 beta) \<and> flt (clampBeta32 beta) (lit 1)"
proof (cases beta)
  case (Fin r)
  then show ?thesis by (simp add: clampBeta32_Fin)
next
  case PInf
  then show ?thesis by (simp add: clampBeta32_special)
next
  case NInf
  then show ?thesis by (simp add: clampBeta32_special)
next
  case NaN
  with assms show ?thesis by simp
qed

lemma dopplerFactor32_NaN: "dopplerFactor32 NaN = NaN"
  by (simp add: dopplerFactor32_def)

lemma doppler32_clamped_pos:
  assumes "beta \<noteq> NaN" and "\<And>r. beta = Fin r \<Longrightarrow> \<exists>y. r = rnd y"
  shows "\<exists>s. dopplerFactor32 (clampBeta32 beta) = Fin s \<and> 0 < s"
proof -
  have c: "\<exists>s. dopplerFactor32 (Fin (4152361 / 4194304)) = Fin s \<and> 0 < s"
    by (rule dopplerFactor32_pos [of _ "99 / 100"]) (simp_all add: rnd_dec_099)
  have c': "\<exists>s. dopplerFactor32 (Fin (- (4152361 / 4194304))) = Fin s \<and> 0 < s"
    by (rule dopplerFactor32_pos [of _ "- (99 / 100)"]) (simp_all add: rnd_dec_099 rnd_minus)
  show ?thesis
  proof (cases beta)
    case (Fin r)
    from assms(2) [OF Fin] obtain y where y: "r = rnd y" ..
    consider "1 \<le> r" | "r \<le> - 1" | "- 1 < r" "r < 1" by linarith
    then show ?thesis
    proof cases
      case 1
      then show ?thesis unfolding Fin clampBeta32_Fin using c by simp
    next
      case 2
      then show ?thesis unfolding Fin clampBeta32_Fin using c' by simp
    next
      case 3
      then have "clampBeta32 (Fin r) = Fin r" unfolding clampBeta32_Fin by simp
      with dopplerFactor32_pos [OF 3 y] show ?thesis unfolding Fin by simp
    qed
  next
    case PInf
    then show ?thesis using c by (simp add: clampBeta32_special)
  next
    case NInf
    then show ?thesis using c' by (simp add: clampBeta32_special)
  next
    case NaN
    with assms(1) show ?thesis by simp
  qed
qed

lemma finish_exact:
  assumes "\<bar>m\<bar> < 2 ^ 24" and "- 149 \<le> k" and "x = of_int m * pow2 k" and "\<bar>x\<bar> \<le> max_float"
  shows "finish x = Fin x"
  using finish_Fin [OF assms(4)] rnd_exact [OF assms(1,2)] assms(3) by simp

lemma finish_values:
  "finish 0 = Fin 0" "finish 1 = Fin 1" "finish 16 = Fin 16" "finish 20 = Fin 20"
  "finish 256 = Fin 256" "finish 255 = Fin 255" "finish (1 / 16) = Fin (1 / 16)"
  "finish (127 / 128) = Fin (127 / 128)" "finish (255 / 128) = Fin (255 / 128)"
  "finish (1 / 128) = Fin (1 / 128)"
  "finish 1180591620717411303424 = Fin 1180591620717411303424"
  "finish (- 1180591620717411303424) = Fin (- 1180591620717411303424)"
  by (rule finish_exact [of 0 0], simp_all add: max_float_value)
     (rule finish_exact [of 1 0], simp_all add: max_float_value,
      rule finish_exact [of 1 4], simp_all add: max_float_value,
      rule finish_exact [of 5 2], simp_all add: max_float_value,
      rule finish_exact [of 1 8], simp_all add: max_float_value,
      rule finish_exact [of 255 0], simp_all add: max_float_value,
      rule finish_exact [of 1 "- 4"], simp_all add: max_float_value,
      rule finish_exact [of 127 "- 7"], simp_all add: max_float_value,
      rule finish_exact [of 255 "- 7"], simp_all add: max_float_value,
      rule finish_exact [of 1 "- 7"], simp_all add: max_float_value,
      rule finish_exact [of 1 70], simp_all add: max_float_value,
      rule finish_exact [of "- 1" 70], simp_all add: max_float_value)

lemma finish_overflow: "finish 1393796574908163946345982392040522594123776 = PInf"
proof -
  have "rnd 1393796574908163946345982392040522594123776 = 1393796574908163946345982392040522594123776"
    using rnd_pow2 [of 140] by simp
  then show ?thesis by (simp add: finish_def Let_def max_float_value)
qed

lemma lit_20: "lit OBSERVER_POSITION_Z = Fin 20"
  by (simp add: lit_def OBSERVER_POSITION_Z_def finish_values)

lemma lit_speed: "lit SPEED_OF_LIGHT = Fin 1"
  by (simp add: lit_def SPEED_OF_LIGHT_def finish_values)

lemma sqrt_256: "sqrt 256 = 16"
proof -
  have "sqrt (16\<^sup>2) = 16" by simp
  then show ?thesis by simp
qed

lemma rnd_16: "rnd 16 = 16"
  using rnd_pow2 [of 4] by simp

lemmas vec32_defs = lineOfSight32_def normalize32_def vscale32_def vsub32_def dot32_def
  inversesqrt32_def rawBeta32_def calculateRelativisticDopplerShift32_def

lemma lineOfSight32_example:
  "lineOfSight32 (vec3f (Fin 0) (Fin 0) (Fin 4)) = vec3f (Fin 0) (Fin 0) (Fin 1)"
  unfolding vec32_defs
  by (simp only: lit_values lit_20) (simp add: finish_values sqrt_256 rnd_16)

lemma calc32_eq:
  "calculateRelativisticDopplerShift32 v ob = dopplerFactor32 (clampBeta32 (rawBeta32 v ob))"
  by (simp add: calculateRelativisticDopplerShift32_def)

lemma rawBeta32_example:
  "rawBeta32 (vec3f (Fin 0) (Fin 0) (Fin 4)) (vec3f (Fin 0) (Fin 0) (Fin (385 / 128)))
     = Fin (127 / 128)"
  unfolding rawBeta32_def Let_def lineOfSight32_example lit_speed
  unfolding vsub32_def dot32_def
  by (simp add: finish_values)

lemma rawBeta32_at_observer:
  "rawBeta32 (vec3f (Fin 0) (Fin 0) (Fin 20)) (vec3f (Fin 0) (Fin 0) (Fin 0)) = NaN"
  unfolding vec32_defs Let_def
  by (simp only: lit_values lit_20 lit_speed) (simp add: finish_values)

text \<open>
  Claim C1, as stated: every raw \<open>beta\<close> outside \<open>(-0.99, 0.99)\<close> is replaced by 0.99 or
  by -0.99, and the result is a finite positive number for every pair of vectors. With
  the star velocity \<open>(0, 0, 4)\<close> and the observer velocity \<open>(0, 0, 385/128)\<close> the raw \<open>beta\<close>
  is 127/128, which is outside that interval and is used as it is. With the star velocity
  \<open>(0, 0, 20)\<close>, the observer's point, the raw \<open>beta\<close> and the result are NaN.
\<close>

theorem unclamped_beta32_counterexample:
  "rawBeta32 (vec3f (Fin 0) (Fin 0) (Fin 4)) (vec3f (Fin 0) (Fin 0) (Fin (385 / 128)))
     = Fin (127 / 128)
   \<and> \<not> (- 0.99 < (127 / 128 :: real) \<and> (127 / 128 :: real) < 0.99)
   \<and> clampBeta32 (Fin (127 / 128)) = Fin (127 / 128)
   \<and> clampBeta32 (Fin (127 / 128)) \<noteq> lit 0.99
   \<and> calculateRelativisticDopplerShift32
         (vec3f (Fin 0) (Fin 0) (Fin 4)) (vec3f (Fin 0) (Fin 0) (Fin (385 / 128)))
       = fsqrt (Fin 255)
   \<and> calculateRelativisticDopplerShift32
         (vec3f (Fin 0) (Fin 0) (Fin 20)) (vec3f (Fin 0) (Fin 0) (Fin 0)) = NaN"
proof -
  have c: "clampBeta32 (Fin (127 / 128)) = Fin (127 / 128)"
    by (simp add: clampBeta32_Fin)
  have d: "dopplerFactor32 (Fin (127 / 128)) = fsqrt (Fin 255)"
    unfolding dopplerFactor32_def by (simp only: lit_values) (simp add: finish_values)
  have n: "calculateRelativisticDopplerShift32
         (vec3f (Fin 0) (Fin 0) (Fin 20)) (vec3f (Fin 0) (Fin 0) (Fin 0)) = NaN"
    unfolding calc32_eq rawBeta32_at_observer
    by (simp add: clampBeta32_special dopplerFactor32_NaN)
  have r: "calculateRelativisticDopplerShift32
         (vec3f (Fin 0) (Fin 0) (Fin 4)) (vec3f (Fin 0) (Fin 0) (Fin (385 / 128)))
       = fsqrt (Fin 255)"
    unfolding calc32_eq rawBeta32_example c d by (rule refl)
  have ne: "clampBeta32 (Fin (127 / 128)) \<noteq> lit 0.99"
    unfolding c lit_099 by simp
  have out: "\<not> (- 0.99 < (127 / 128 :: real) \<and> (127 / 128 :: real) < 0.99)"
    by simp
  from rawBeta32_example out c ne r n show ?thesis
    by blast
qed

text \<open>
  Claim C1, amended: the calculator replaces the raw \<open>beta\<close> by \<open>0.99f\<close> when it is at least
  1 and by \<open>-0.99f\<close> when it is at most -1, leaves every other \<open>beta\<close> as it is, so that a
  \<open>beta\<close> that is a number ends in \<open>(-1, 1)\<close>, and returns \<open>sqrt ((1 + beta) / (1 - beta))\<close>,
  all in binary32. For every pair of input vectors the result is a finite, strictly
  positive number, unless the raw \<open>beta\<close> is NaN; then the result is NaN.
\<close>

theorem doppler32_positive_unless_nan:
  "calculateRelativisticDopplerShift32 v ob = dopplerFactor32 (clampBeta32 (rawBeta32 v ob))
   \<and> (\<forall>beta. clampBeta32 beta =
         (if fge beta (lit 1) then lit 0.99
          else if fle beta (fneg (lit 1)) then fneg (lit 0.99) else beta))
   \<and> (\<forall>beta. beta \<noteq> NaN \<longrightarrow>
         flt (fneg (lit 1)) (clampBeta32 beta) \<and> flt (clampBeta32 beta) (lit 1))
   \<and> (\<forall>beta. dopplerFactor32 beta = fsqrt (fdiv (fadd (lit 1) beta) (fsub (lit 1) beta)))
   \<and> (rawBeta32 v ob \<noteq> NaN \<longrightarrow>
        (\<exists>s. calculateRelativisticDopplerShift32 v ob = Fin s \<and> 0 < s))
   \<and> (rawBeta32 v ob = NaN \<longrightarrow> calculateRelativisticDopplerShift32 v ob = NaN)"
proof -
  have pos: "\<exists>s. calculateRelativisticDopplerShift32 v ob = Fin s \<and> 0 < s"
    if "rawBeta32 v ob \<noteq> NaN"
    unfolding calc32_eq using that rawBeta32_grid [of v ob]
    by (intro doppler32_clamped_pos) simp_all
  have nan: "calculateRelativisticDopplerShift32 v ob = NaN" if "rawBeta32 v ob = NaN"
    unfolding calc32_eq that by (simp add: clampBeta32_special dopplerFactor32_NaN)
  from pos nan calc32_eq [of v ob] clampBeta32_cases clampBeta32_range dopplerFactor32_def
  show ?thesis by blast
qed

theorem doppler32_positive_unless_nan_witness:
  "rawBeta32 (vec3f (Fin 0) (Fin 0) (Fin 4)) (vec3f (Fin 0) (Fin 0) (Fin (385 / 128))) \<noteq> NaN
   \<and> (\<exists>s. calculateRelativisticDopplerShift32
             (vec3f (Fin 0) (Fin 0) (Fin 4)) (vec3f (Fin 0) (Fin 0) (Fin (385 / 128))) = Fin s
          \<and> 0 < s)
   \<and> calculateRelativisticDopplerShift32
         (vec3f (Fin 0) (Fin 0) (Fin 20)) (vec3f (Fin 0) (Fin 0) (Fin 0)) = NaN"
proof -
  have a: "rawBeta32 (vec3f (Fin 0) (Fin 0) (Fin 4)) (vec3f (Fin 0) (Fin 0) (Fin (385 / 128)))
      \<noteq> NaN"
    by (simp add: rawBeta32_example)
  note t1 = doppler32_positive_unless_nan
    [of "vec3f (Fin 0) (Fin 0) (Fin 4)" "vec3f (Fin 0) (Fin 0) (Fin (385 / 128))"]
  note t2 = doppler32_positive_unless_nan
    [of "vec3f (Fin 0) (Fin 0) (Fin 20)" "vec3f (Fin 0) (Fin 0) (Fin 0)"]
  from t1 a have "\<exists>s. calculateRelativisticDopplerShift32
             (vec3f (Fin 0) (Fin 0) (Fin 4)) (vec3f (Fin 0) (Fin 0) (Fin (385 / 128))) = Fin s
          \<and> 0 < s"
    by blast
  moreover from t2 rawBeta32_at_observer have "calculateRelativisticDopplerShift32
         (vec3f (Fin 0) (Fin 0) (Fin 20)) (vec3f (Fin 0) (Fin 0) (Fin 0)) = NaN"
    by blast
  ultimately show ?thesis using a by blast
qed

lemma rnd_pos_min:
  assumes "0 < rnd y"
  shows "pow2 (- 149) \<le> rnd y"
proof -
  define k where "k = round_even (y / ulp y)"
  have r: "rnd y = of_int k * ulp y" by (simp add: rnd_def k_def)
  with assms have "0 < (of_int k :: real)"
    using ulp_pos [of y] by (simp add: zero_less_mult_iff)
  then have "1 \<le> k" by simp
  then have "(1::real) \<le> of_int k" by simp
  then have "1 * ulp y \<le> of_int k * ulp y"
    by (intro mult_right_mono) (simp_all add: less_imp_le)
  moreover have "pow2 (- 149) \<le> ulp y"
    unfolding ulp_def using expo_ge [of y] by (simp del: pow2_neg_numeral)
  ultimately show ?thesis unfolding r by linarith
qed

lemma fadd_grid:
  assumes "fadd a b = Fin x"
  shows "(\<exists>y. x = rnd y) \<and> \<bar>x\<bar> \<le> max_float"
proof (cases a)
  case (Fin u)
  show ?thesis
  proof (cases b)
    case (Fin v)
    with \<open>a = Fin u\<close> assms have "finish (u + v) = Fin x" by simp
    from finish_FinD [OF this] show ?thesis by blast
  qed (use assms \<open>a = Fin u\<close> in simp_all)
next
  case PInf
  with assms show ?thesis by (cases b) simp_all
next
  case NInf
  with assms show ?thesis by (cases b) simp_all
next
  case NaN
  with assms show ?thesis by simp
qed

lemma dot32_grid:
  assumes "dot32 a b = Fin x"
  shows "(\<exists>y. x = rnd y) \<and> \<bar>x\<bar> \<le> max_float"
  using assms unfolding dot32_def by (rule fadd_grid)

lemma inversesqrt32_pos:
  assumes "0 < x" and "x = rnd y" and "x \<le> max_float"
  shows "\<exists>k. inversesqrt32 (Fin x) = Fin k \<and> 0 < k"
proof -
  from assms have lo: "pow2 (- 149) \<le> x" using rnd_pos_min [of y] by simp
  define q where "q = rnd (sqrt x)"
  define k where "k = rnd (1 / q)"
  have "(pow2 (- 75))\<^sup>2 \<le> x" using lo by (simp add: power2_eq_square)
  then have "pow2 (- 75) \<le> sqrt x" by (intro real_le_rsqrt)
  then have "rnd (pow2 (- 75)) \<le> rnd (sqrt x)" by (rule rnd_mono)
  then have qlo: "pow2 (- 75) \<le> q" unfolding q_def by (simp add: rnd_pow2 del: pow2_neg_numeral)
  have "x \<le> (pow2 64)\<^sup>2" using assms(3) by (simp add: max_float_value)
  then have "sqrt x \<le> pow2 64" by (intro real_le_lsqrt) simp_all
  then have "rnd (sqrt x) \<le> rnd (pow2 64)" by (rule rnd_mono)
  then have qhi: "q \<le> pow2 64" unfolding q_def by (simp add: rnd_pow2 del: pow2_numeral)
  have qpos: "0 < q" using qlo pow2_pos [of "- 75"] by linarith
  have "1 / q \<le> 1 / pow2 (- 75)" using qlo by (intro divide_left_mono) simp_all
  then have ihi: "1 / q \<le> pow2 75" by simp
  have "1 / pow2 64 \<le> 1 / q" using qhi qpos by (intro divide_left_mono) simp_all
  then have ilo: "pow2 (- 64) \<le> 1 / q" by simp
  have "rnd (pow2 (- 64)) \<le> rnd (1 / q)" using ilo by (rule rnd_mono)
  then have klo: "pow2 (- 64) \<le> k" unfolding k_def by (simp add: rnd_pow2 del: pow2_neg_numeral)
  have "\<bar>1 / q\<bar> \<le> max_float" using ihi qpos by (simp add: max_float_value)
  then have "finish (1 / q) = Fin k" unfolding k_def by (rule finish_Fin)
  moreover have "fsqrt (Fin x) = Fin q" unfolding q_def using assms(1) by simp
  ultimately have "inversesqrt32 (Fin x) = Fin k"
    unfolding inversesqrt32_def using qpos by (simp only: lit_values) simp
  moreover have "0 < k" using klo pow2_pos [of "- 64"] by linarith
  ultimately show ?thesis by blast
qed

lemma inversesqrt32_special:
  "inversesqrt32 PInf = Fin 0" "inversesqrt32 (Fin 0) = PInf"
  unfolding inversesqrt32_def by (simp_all only: lit_values) simp_all

lemma lineOfSight32_overflow:
  "lineOfSight32 (vec3f (Fin (- (2 ^ 70))) (Fin 0) (Fin 20)) = vec3f (Fin 0) (Fin 0) (Fin 0)"
  unfolding vec32_defs
  by (simp only: lit_values lit_20) (simp add: finish_values finish_overflow)

lemma lineOfSight32_at_observer:
  "lineOfSight32 (vec3f (Fin 0) (Fin 0) (Fin 20)) = vec3f NaN NaN NaN"
  unfolding vec32_defs
  by (simp only: lit_values lit_20) (simp add: finish_values)

lemma dopplerFactor32_zero: "dopplerFactor32 (Fin 0) = Fin 1"
  unfolding dopplerFactor32_def by (simp only: lit_values) (simp add: finish_values)




end
